theory Spec2Isabelle
  imports Complex_Main "HOL-Library.Multiset" "HOL-Library.Product_Lexorder"
begin

section \<open>Market risk analyzer: data model\<close>

text \<open>
  The program is the class \<open>MarketRiskAnalyzer\<close> of \<open>riskvar_analysis.py\<close>. Its numbers are
  Python floats. A finite float is modelled by the real number it stands for (rounding is not
  modelled, except where the order of a sum is in question, in a section of its own); the
  three special values a float can take are kept, because the program produces
  them: \<open>NaN\<close> for a missing cell, for the shifted first row and for statistics of an empty
  series, and the two infinities for the logarithm of a zero ratio.
\<close>

datatype pyfloat = Fin real | PInf | NInf | NaN

datatype error = KeyError | ValueError | TypeError

subsection \<open>Float arithmetic on the special values\<close>

fun fneg :: "pyfloat \<Rightarrow> pyfloat" where
  "fneg (Fin a) = Fin (- a)"
| "fneg PInf = NInf"
| "fneg NInf = PInf"
| "fneg NaN = NaN"

fun fadd :: "pyfloat \<Rightarrow> pyfloat \<Rightarrow> pyfloat" where
  "fadd NaN _ = NaN"
| "fadd _ NaN = NaN"
| "fadd (Fin a) (Fin b) = Fin (a + b)"
| "fadd (Fin _) PInf = PInf"
| "fadd (Fin _) NInf = NInf"
| "fadd PInf (Fin _) = PInf"
| "fadd NInf (Fin _) = NInf"
| "fadd PInf PInf = PInf"
| "fadd NInf NInf = NInf"
| "fadd PInf NInf = NaN"
| "fadd NInf PInf = NaN"

definition fsub :: "pyfloat \<Rightarrow> pyfloat \<Rightarrow> pyfloat" where
  "fsub a b = fadd a (fneg b)"

text \<open>The sign of an infinity scaled by a finite factor; zero times infinity is \<open>NaN\<close>.\<close>

definition scale_inf :: "real \<Rightarrow> pyfloat \<Rightarrow> pyfloat" where
  "scale_inf a s = (if a > 0 then s else if a < 0 then fneg s else NaN)"

fun fmul :: "pyfloat \<Rightarrow> pyfloat \<Rightarrow> pyfloat" where
  "fmul NaN _ = NaN"
| "fmul _ NaN = NaN"
| "fmul (Fin a) (Fin b) = Fin (a * b)"
| "fmul (Fin a) PInf = scale_inf a PInf"
| "fmul (Fin a) NInf = scale_inf a NInf"
| "fmul PInf (Fin b) = scale_inf b PInf"
| "fmul NInf (Fin b) = scale_inf b NInf"
| "fmul PInf PInf = PInf"
| "fmul NInf NInf = PInf"
| "fmul PInf NInf = NInf"
| "fmul NInf PInf = NInf"

text \<open>
  numpy's true division: a finite value over zero is an infinity of the numerator's sign
  (the zero of a spreadsheet cell is the positive one), zero over zero is \<open>NaN\<close>.
\<close>

fun fdiv :: "pyfloat \<Rightarrow> pyfloat \<Rightarrow> pyfloat" where
  "fdiv NaN _ = NaN"
| "fdiv _ NaN = NaN"
| "fdiv (Fin a) (Fin b) = (if b \<noteq> 0 then Fin (a / b) else scale_inf a PInf)"
| "fdiv (Fin _) PInf = Fin 0"
| "fdiv (Fin _) NInf = Fin 0"
| "fdiv PInf (Fin b) = (if b \<ge> 0 then PInf else NInf)"
| "fdiv NInf (Fin b) = (if b \<ge> 0 then NInf else PInf)"
| "fdiv PInf PInf = NaN"
| "fdiv PInf NInf = NaN"
| "fdiv NInf PInf = NaN"
| "fdiv NInf NInf = NaN"

text \<open>\<open>np.log\<close> and \<open>np.sqrt\<close> on a float.\<close>

fun np_log :: "pyfloat \<Rightarrow> pyfloat" where
  "np_log (Fin a) = (if a > 0 then Fin (ln a) else if a = 0 then NInf else NaN)"
| "np_log PInf = PInf"
| "np_log NInf = NaN"
| "np_log NaN = NaN"

fun np_sqrt :: "pyfloat \<Rightarrow> pyfloat" where
  "np_sqrt (Fin a) = (if a \<ge> 0 then Fin (sqrt a) else NaN)"
| "np_sqrt PInf = PInf"
| "np_sqrt NInf = NaN"
| "np_sqrt NaN = NaN"

definition fsum :: "pyfloat list \<Rightarrow> pyfloat" where
  "fsum xs = fold fadd xs (Fin 0)"

definition notna :: "pyfloat \<Rightarrow> bool" where
  "notna x = (x \<noteq> NaN)"

subsection \<open>The data frame and the analyzer\<close>

text \<open>
  A row of the table read from the spreadsheet. \<open>Date\<close> is the cell of the column of that
  name: a timestamp once parsed, \<open>NaT\<close> for an empty cell, \<open>Unparseable\<close> for a text
  \<open>pd.to_datetime\<close> rejects. \<open>Close\<close> is the closing price (\<open>NaN\<close> for an empty cell).
  A spreadsheet may carry more columns than these two; of them only one fact reaches the
  program, through \<open>dropna\<close>: whether the row has an empty cell there (\<open>Other_na\<close>).
  Tables are taken to carry both named columns, with a numeric \<open>Close\<close>.
\<close>

datatype date_cell = Stamp int | NaT | Unparseable

record raw_row =
  Date :: date_cell
  Close :: pyfloat
  Other_na :: bool

record row = raw_row +
  Returns :: pyfloat

text \<open>
  \<open>self.data\<close> when it is not \<open>None\<close>: the table as read (no \<open>Returns\<close> column yet), or
  the table with its \<open>Returns\<close> column.
\<close>

datatype frame = Raw "raw_row list" | Loaded "row list"

record analyzer =
  file_path :: string
  confidence_level :: real
  data :: "frame option"
  results :: "string \<rightharpoonup> pyfloat"


definition MarketRiskAnalyzer :: "string \<Rightarrow> real \<Rightarrow> analyzer" where
  "MarketRiskAnalyzer path c =
     \<lparr>file_path = path, confidence_level = c, data = None, results = Map.empty\<rparr>"

section \<open>The library operations the program calls\<close>

subsection \<open>\<open>Series.quantile\<close>\<close>

text \<open>
  pandas first checks that the fraction lies in \<open>[0, 1]\<close> (\<open>ValueError\<close> otherwise), masks
  the \<open>NaN\<close> entries out, answers \<open>NaN\<close> when nothing is left, and otherwise hands the values
  to numpy's percentile with the default method \<open>linear\<close>: the values are ordered, the
  virtual index is \<open>(n - 1) * q\<close>, the two neighbours are the entries at its floor and one
  above (both the last entry once the index reaches \<open>n - 1\<close>), and the result interpolates
  between them.
\<close>

definition fkey :: "pyfloat \<Rightarrow> nat \<times> real" where
  "fkey x = (case x of NInf \<Rightarrow> (0, 0) | Fin a \<Rightarrow> (1, a) | PInf \<Rightarrow> (2, 0) | NaN \<Rightarrow> (3, 0))"

definition lerp :: "pyfloat \<Rightarrow> pyfloat \<Rightarrow> real \<Rightarrow> pyfloat" where
  "lerp a b t =
     (let diff_b_a = fsub b a
      in if t \<ge> 1 / 2 then fsub b (fmul diff_b_a (Fin (1 - t)))
         else fadd a (fmul diff_b_a (Fin t)))"

definition np_quantile_linear :: "pyfloat list \<Rightarrow> real \<Rightarrow> pyfloat" where
  "np_quantile_linear arr q =
     (let s = sort_key fkey arr;
          n = length s;
          virtual_index = real (n - 1) * q;
          above = (virtual_index \<ge> real (n - 1));
          previous_index = (if above then n - 1 else nat \<lfloor>virtual_index\<rfloor>);
          next_index = (if above then n - 1 else previous_index + 1);
          gamma = (if above then virtual_index + 1
                   else virtual_index - real_of_int \<lfloor>virtual_index\<rfloor>)
      in lerp (s ! previous_index) (s ! next_index) gamma)"

definition pd_quantile :: "pyfloat list \<Rightarrow> real \<Rightarrow> error + pyfloat" where
  "pd_quantile xs q =
     (if q < 0 \<or> 1 < q then Inl ValueError
      else let values = filter notna xs
           in if values = [] then Inr NaN else Inr (np_quantile_linear values q))"

subsection \<open>\<open>np.mean\<close>, \<open>np.std\<close> and \<open>Series.std\<close>\<close>

text \<open>
  Called on a pandas series, \<open>np.mean\<close> and \<open>np.std\<close> hand over to the series' own \<open>mean\<close>
  and \<open>std\<close>, which skip \<open>NaN\<close> entries; \<open>np.std\<close> passes its default \<open>ddof = 0\<close>, while
  \<open>Series.std()\<close> called directly (in the report) has \<open>ddof = 1\<close>.
\<close>

definition nanmean :: "pyfloat list \<Rightarrow> pyfloat" where
  "nanmean xs =
     (let values = filter notna xs; count = length values
      in if count > 0 then fdiv (fsum values) (Fin (real count)) else NaN)"

definition nanvar :: "nat \<Rightarrow> pyfloat list \<Rightarrow> pyfloat" where
  "nanvar ddof xs =
     (let values = filter notna xs; count = length values
      in if count \<le> ddof then NaN
         else let avg = fdiv (fsum values) (Fin (real count));
                  sqr = map (\<lambda>v. fmul (fsub avg v) (fsub avg v)) values
              in fdiv (fsum sqr) (Fin (real (count - ddof))))"

definition nanstd :: "nat \<Rightarrow> pyfloat list \<Rightarrow> pyfloat" where
  "nanstd ddof xs = np_sqrt (nanvar ddof xs)"

definition np_mean :: "pyfloat list \<Rightarrow> pyfloat" where
  "np_mean xs = nanmean xs"

definition np_std :: "pyfloat list \<Rightarrow> pyfloat" where
  "np_std xs = nanstd 0 xs"

subsection \<open>\<open>stats.norm.ppf\<close>\<close>

text \<open>
  The inverse of the standard normal distribution function is not part of the program; it is a
  parameter \<open>ndtri\<close> of the model, giving the value on the open interval \<open>(0, 1)\<close>. Around it,
  scipy answers the infinities at the two ends and \<open>NaN\<close> outside.
\<close>

definition norm_ppf :: "(real \<Rightarrow> real) \<Rightarrow> real \<Rightarrow> pyfloat" where
  "norm_ppf ndtri q =
     (if 0 < q \<and> q < 1 then Fin (ndtri q)
      else if q = 0 then NInf else if q = 1 then PInf else NaN)"

subsection \<open>\<open>sort_values\<close>, \<open>shift\<close> and \<open>dropna\<close>\<close>

text \<open>
  \<open>sort_values(by='Date')\<close> is called with pandas' default algorithm (\<open>kind='quicksort'\<close>),
  which is not a stable sort. The sort is a parameter of \<open>load_data\<close>: what the return
  series needs of it is \<open>sorts_by_date\<close>, that the rows are permuted into ascending date
  order, empty dates last. The sort pandas runs is modelled further down (\<open>pd_sort_values\<close>),
  for the order it gives to rows of equal date.
\<close>

definition date_key :: "date_cell \<Rightarrow> nat \<times> int" where
  "date_key d = (case d of Stamp t \<Rightarrow> (0, t) | NaT \<Rightarrow> (1, 0) | Unparseable \<Rightarrow> (1, 0))"

definition sorts_by_date :: "(raw_row list \<Rightarrow> raw_row list) \<Rightarrow> bool" where
  "sorts_by_date srt =
     (\<forall>tbl. mset (srt tbl) = mset tbl \<and> sorted (map (\<lambda>r. date_key (Date r)) (srt tbl)))"

definition shift1 :: "pyfloat list \<Rightarrow> pyfloat list" where
  "shift1 xs = (if xs = [] then [] else NaN # butlast xs)"

definition with_returns :: "raw_row \<Rightarrow> pyfloat \<Rightarrow> row" where
  "with_returns r v = \<lparr>Date = Date r, Close = Close r, Other_na = Other_na r, Returns = v\<rparr>"

definition row_complete :: "row \<Rightarrow> bool" where
  "row_complete r = (Date r \<noteq> NaT \<and> notna (Close r) \<and> \<not> Other_na r \<and> notna (Returns r))"

definition dropna :: "row list \<Rightarrow> row list" where
  "dropna rs = filter row_complete rs"

section \<open>The analyzer's methods\<close>

text \<open>
  \<open>load_data\<close>. Its first argument is the sort (see above), its second what
  \<open>pd.read_excel(self.file_path)\<close> gives: \<open>None\<close> when it raises, the table otherwise. Every
  exception is caught by the method and only printed, so the method returns the state it had
  reached: \<open>self.data\<close> untouched when the read failed, the table as read when a date does
  not parse. The messages it prints are not modelled, and neither is \<open>visualize_risk\<close>,
  which only draws.
\<close>

definition log_returns :: "pyfloat list \<Rightarrow> pyfloat list" where
  "log_returns closes = map2 (\<lambda>c p. np_log (fdiv c p)) closes (shift1 closes)"

definition load_data ::
  "(raw_row list \<Rightarrow> raw_row list) \<Rightarrow> raw_row list option \<Rightarrow> analyzer \<Rightarrow> analyzer" where
  "load_data srt read st =
     (case read of
        None \<Rightarrow> st
      | Some tbl \<Rightarrow>
          if \<exists>r \<in> set tbl. Date r = Unparseable then st\<lparr>data := Some (Raw tbl)\<rparr>
          else let sorted_rows = srt tbl;
                   rets = log_returns (map Close sorted_rows)
               in st\<lparr>data := Some (Loaded (dropna (map2 with_returns sorted_rows rets)))\<rparr>)"

definition init ::
  "(raw_row list \<Rightarrow> raw_row list) \<Rightarrow> raw_row list option \<Rightarrow> string \<Rightarrow> real \<Rightarrow> analyzer" where
  "init srt read path c = load_data srt read (MarketRiskAnalyzer path c)"

text \<open>\<open>self.data['Returns']\<close>: the column, or \<open>KeyError\<close> when the frame has none.\<close>

definition returns_column :: "frame \<Rightarrow> error + pyfloat list" where
  "returns_column fr = (case fr of Raw _ \<Rightarrow> Inl KeyError | Loaded rs \<Rightarrow> Inr (map Returns rs))"

text \<open>
  The two calculators return Python's \<open>None\<close> or a float, and may raise; the state comes back
  with the result. An exception leaves the state as it was.
\<close>

definition calculate_historical_var :: "analyzer \<Rightarrow> error + (pyfloat option \<times> analyzer)" where
  "calculate_historical_var st =
     (case data st of
        None \<Rightarrow> Inr (None, st)
      | Some fr \<Rightarrow>
          (let var_percentile = 1 - confidence_level st
           in case returns_column fr of
                Inl e \<Rightarrow> Inl e
              | Inr rets \<Rightarrow>
                  (case pd_quantile rets var_percentile of
                     Inl e \<Rightarrow> Inl e
                   | Inr var_value \<Rightarrow>
                       Inr (Some var_value,
                            st\<lparr>results := (results st)(''Historical VaR'' \<mapsto> var_value)\<rparr>))))"

definition calculate_parametric_var ::
  "(real \<Rightarrow> real) \<Rightarrow> analyzer \<Rightarrow> error + (pyfloat option \<times> analyzer)" where
  "calculate_parametric_var ndtri st =
     (case data st of
        None \<Rightarrow> Inr (None, st)
      | Some fr \<Rightarrow>
          (case returns_column fr of
             Inl e \<Rightarrow> Inl e
           | Inr rets \<Rightarrow>
               (let mu = np_mean rets;
                    sigma = np_std rets;
                    z_score = norm_ppf ndtri (1 - confidence_level st);
                    var_value = fadd mu (fmul z_score sigma)
                in Inr (Some var_value,
                        st\<lparr>results := (results st)(''Parametric VaR'' \<mapsto> var_value)\<rparr>))))"

text \<open>
  \<open>generate_risk_report\<close> prints twelve lines. A printed line is kept as its pieces: literal
  text, and the numbers with the format the f-string gives them (\<open>{x}\<close>, \<open>{x:.4f}\<close>,
  \<open>{x:.4%}\<close>, \<open>{x:.2%}\<close>), so that turning a float into digits is left out. The result is
  what was printed and the exception that ended the method, if one did: \<open>self.data['Returns']\<close>
  raises \<open>TypeError\<close> on \<open>None\<close> and \<open>KeyError\<close> on a frame without that column, after four
  lines are out.
\<close>

datatype piece = Lit string | Repr pyfloat | Fixed nat pyfloat | Percent nat pyfloat

definition dict_get :: "('k \<rightharpoonup> 'v) \<Rightarrow> 'k \<Rightarrow> 'v \<Rightarrow> 'v" where
  "dict_get m k d = (case m k of None \<Rightarrow> d | Some v \<Rightarrow> v)"

definition report_head :: "analyzer \<Rightarrow> piece list list" where
  "report_head st =
     [[Lit (CHR 0x0A # replicate 40 CHR ''='')],
      [Lit ''   MARKET RISK ANALYSIS REPORT''],
      [Lit (replicate 40 CHR ''='')],
      [Lit ''Confidence Level: '', Repr (Fin (confidence_level st * 100)), Lit ''%'']]"

definition report_body :: "analyzer \<Rightarrow> pyfloat list \<Rightarrow> piece list list" where
  "report_body st rets =
     [[Lit ''Volatility (Daily): '', Fixed 4 (nanstd 1 rets)],
      [Lit (replicate 40 CHR ''-'')],
      [Lit ''1. Historical VaR:   '', Percent 4 (dict_get (results st) ''Historical VaR'' (Fin 0))],
      [Lit ''2. Parametric VaR:   '', Percent 4 (dict_get (results st) ''Parametric VaR'' (Fin 0))],
      [Lit (replicate 40 CHR ''='')],
      [Lit (CHR 0x0A # ''Interpretation:'')],
      [Lit ''With '', Repr (Fin (confidence_level st * 100)),
       Lit ''% confidence, the maximum expected daily loss''],
      [Lit ''will not exceed '',
       Percent 2 (fmul (Fin (- 1)) (dict_get (results st) ''Parametric VaR'' (Fin 0))),
       Lit '' (Parametric model).'']]"

definition generate_risk_report :: "analyzer \<Rightarrow> piece list list \<times> error option" where
  "generate_risk_report st =
     (case data st of
        None \<Rightarrow> (report_head st, Some TypeError)
      | Some fr \<Rightarrow>
          (case returns_column fr of
             Inl e \<Rightarrow> (report_head st, Some e)
           | Inr rets \<Rightarrow> (report_head st @ report_body st rets, None)))"

section \<open>Rounding and the order of summation\<close>

text \<open>
  Whether a sum of floats depends on the order of its terms is a question about rounding. For
  that question the arithmetic of \<open>calculate_parametric_var\<close> is modelled a second time,
  every operation rounded to the nearest double, ties to even, as IEEE 754 arithmetic does.
  A double has 53 significant bits: \<open>round_double\<close> rounds a real to the nearest multiple
  of the unit in the last place of its binade. The exponent range is taken unbounded
  (overflow and subnormal numbers are left out).
\<close>

definition round_half_even :: "real \<Rightarrow> int" where
  "round_half_even x =
     (let f = \<lfloor>x\<rfloor>; d = x - of_int f
      in if d < 1 / 2 then f else if 1 / 2 < d then f + 1 else if even f then f else f + 1)"

definition pow2 :: "int \<Rightarrow> real" where
  "pow2 k = (if 0 \<le> k then 2 ^ nat k else 1 / 2 ^ nat (- k))"

definition round_double :: "real \<Rightarrow> real" where
  "round_double x =
     (if x = 0 then 0
      else let ulp = pow2 (\<lfloor>log 2 \<bar>x\<bar>\<rfloor> - 52)
           in ulp * of_int (round_half_even (x / ulp)))"

definition rounded :: "pyfloat \<Rightarrow> pyfloat" where
  "rounded v = (case v of Fin a \<Rightarrow> Fin (round_double a) | _ \<Rightarrow> v)"

definition radd :: "pyfloat \<Rightarrow> pyfloat \<Rightarrow> pyfloat" where
  "radd x y = rounded (fadd x y)"

text \<open>
  The sum of a float column is numpy's \<open>pairwise_sum\<close>: fewer than eight values are added one
  after the other, in row order, starting from zero; up to 128 values are added in eight
  interleaved running sums (\<open>lane a k\<close> adds the values at the places \<open>k\<close>, \<open>k + 8\<close>,
  \<open>k + 16\<close>, ...), which are then added in pairs, and the values left over after the last
  full block of eight are added one after the other; a longer column is cut near its middle, at
  a multiple of eight, and the sums of the two parts are added.
\<close>

definition lane :: "pyfloat list \<Rightarrow> nat \<Rightarrow> pyfloat" where
  "lane a k = fold (\<lambda>b r. radd r (a ! (8 * b + k))) [1 ..< length a div 8] (a ! k)"

definition unrolled_sum :: "pyfloat list \<Rightarrow> pyfloat" where
  "unrolled_sum a =
     (let res = radd (radd (radd (lane a 0) (lane a 1)) (radd (lane a 2) (lane a 3)))
                     (radd (radd (lane a 4) (lane a 5)) (radd (lane a 6) (lane a 7)))
      in fold (\<lambda>x res. radd res x) (drop (length a - length a mod 8) a) res)"

function pairwise_sum :: "pyfloat list \<Rightarrow> pyfloat" where
  "pairwise_sum a =
     (let n = length a
      in if n < 8 then fold (\<lambda>x res. radd res x) a (Fin 0)
         else if n \<le> 128 then unrolled_sum a
         else let n2 = n div 2 - (n div 2) mod 8
              in radd (pairwise_sum (take n2 a)) (pairwise_sum (drop n2 a)))"
  by pat_completeness auto
termination
proof (relation "measure length", goal_cases)
  case 1
  then show ?case by simp
next
  case (2 a n n2)
  then have "n2 < length a" by arith
  then show ?case by simp
next
  case (3 a n n2)
  then have "0 < n2" and "0 < length a" by arith+
  then show ?case by simp
qed

declare pairwise_sum.simps [simp del]

text \<open>
  \<open>np.mean\<close> and \<open>np.std\<close> on the column, as pandas computes them (see above), with the
  rounding of every step: the sum, the division by the count, the differences from the mean,
  their squares, and the square root.
\<close>

definition nanmean_rounded :: "pyfloat list \<Rightarrow> pyfloat" where
  "nanmean_rounded xs =
     (let values = filter notna xs; count = length values
      in if count > 0 then rounded (fdiv (pairwise_sum values) (Fin (real count))) else NaN)"

definition nanvar_rounded :: "nat \<Rightarrow> pyfloat list \<Rightarrow> pyfloat" where
  "nanvar_rounded ddof xs =
     (let values = filter notna xs; count = length values
      in if count \<le> ddof then NaN
         else let avg = rounded (fdiv (pairwise_sum values) (Fin (real count)));
                  sqr = map (\<lambda>v. let d = rounded (fsub avg v) in rounded (fmul d d)) values
              in rounded (fdiv (pairwise_sum sqr) (Fin (real (count - ddof)))))"

definition nanstd_rounded :: "nat \<Rightarrow> pyfloat list \<Rightarrow> pyfloat" where
  "nanstd_rounded ddof xs = rounded (np_sqrt (nanvar_rounded ddof xs))"

text \<open>
  \<open>calculate_parametric_var\<close> over this arithmetic: the same steps as above, each rounded.
\<close>

definition calculate_parametric_var_rounded ::
  "(real \<Rightarrow> real) \<Rightarrow> analyzer \<Rightarrow> error + (pyfloat option \<times> analyzer)" where
  "calculate_parametric_var_rounded ndtri st =
     (case data st of
        None \<Rightarrow> Inr (None, st)
      | Some fr \<Rightarrow>
          (case returns_column fr of
             Inl e \<Rightarrow> Inl e
           | Inr rets \<Rightarrow>
               (let mu = nanmean_rounded rets;
                    sigma = nanstd_rounded 0 rets;
                    z_score = norm_ppf ndtri (round_double (1 - confidence_level st));
                    var_value = rounded (fadd mu (rounded (fmul z_score sigma)))
                in Inr (Some var_value,
                        st\<lparr>results := (results st)(''Parametric VaR'' \<mapsto> var_value)\<rparr>))))"

section \<open>The sort that \<open>sort_values\<close> runs\<close>

text \<open>
  With its default \<open>kind='quicksort'\<close>, \<open>sort_values(by='Date')\<close> separates the rows with an
  empty date, sorts the others with numpy's \<open>argsort\<close> on the \<open>datetime64\<close> column, and puts
  the rows with an empty date last, in their input order. For \<open>datetime64\<close> numpy's quicksort
  is the introsort \<open>aquicksort\<close> of \<open>npysort/quicksort\<close>, modelled here on the list of rows
  (the C code permutes an array of row numbers): a segment of more than 17 rows is partitioned
  around the median of its first, middle and last row, the smaller part is sorted next and
  the larger part is put on a stack; a segment of at most 17 rows is sorted by insertion; a
  segment taken from the stack after more than \<open>2 * \<lfloor>log\<^sub>2 n\<rfloor>\<close> partitions is sorted by
  \<open>aheapsort\<close>.

  \<open>swap\<close> is \<open>INTP_SWAP\<close>. \<open>scan_up\<close> and \<open>scan_down\<close> are the two inner loops of the
  partition, \<open>do ++pi while (v[*pi] < vp)\<close> and \<open>do --pj while (vp < v[*pj])\<close>, entered after
  the first step; the C loops have no bounds check (the median of three leaves a row that stops
  each of them inside the segment, see \<open>np_partition_in_range\<close>), the tests on the index here
  only make the functions total.
\<close>

definition swap :: "'a list \<Rightarrow> nat \<Rightarrow> nat \<Rightarrow> 'a list" where
  "swap a i j = (a[i := a ! j])[j := a ! i]"

function scan_up :: "('a \<Rightarrow> int) \<Rightarrow> 'a list \<Rightarrow> int \<Rightarrow> nat \<Rightarrow> nat" where
  "scan_up key a vp i = (if i < length a \<and> key (a ! i) < vp then scan_up key a vp (Suc i) else i)"
  by pat_completeness auto
termination
  by (relation "measure (\<lambda>(key, a, vp, i). length a - i)") auto

function scan_down :: "('a \<Rightarrow> int) \<Rightarrow> 'a list \<Rightarrow> int \<Rightarrow> nat \<Rightarrow> nat" where
  "scan_down key a vp j = (if 0 < j \<and> vp < key (a ! j) then scan_down key a vp (j - 1) else j)"
  by pat_completeness auto
termination
  by (relation "measure (\<lambda>(key, a, vp, j). j)") auto

declare scan_up.simps [simp del] scan_down.simps [simp del]

function partition_loop ::
  "('a \<Rightarrow> int) \<Rightarrow> int \<Rightarrow> 'a list \<Rightarrow> nat \<Rightarrow> nat \<Rightarrow> 'a list \<times> nat" where
  "partition_loop key vp a i j =
     (let i' = scan_up key a vp (Suc i);
          j' = scan_down key a vp (j - 1)
      in if i' \<ge> j' then (a, i') else partition_loop key vp (swap a i' j') i' j')"
  by pat_completeness auto
termination
proof -
  have up: "i \<le> scan_up key a vp i" for key :: "'a \<Rightarrow> int" and a vp i
    by (induction key a vp i rule: scan_up.induct) (subst scan_up.simps, auto)
  have down: "scan_down key a vp j \<le> j" for key :: "'a \<Rightarrow> int" and a vp j
    by (induction key a vp j rule: scan_down.induct) (subst scan_down.simps, auto)
  show ?thesis
  proof (relation "measure (\<lambda>(key, vp, a, i, j). j - i)", goal_cases)
    case 1
    then show ?case by simp
  next
    case (2 key vp a i j i' j')
    have "Suc i \<le> i'" unfolding 2(1) by (rule up)
    moreover have "j' \<le> j - 1" unfolding 2(2) by (rule down)
    ultimately show ?case using 2(3) by simp
  qed
qed

declare partition_loop.simps [simp del]

text \<open>
  One partition of a segment \<open>a\<close> (\<open>pl\<close> is its place 0, \<open>pr\<close> its last place): the median of
  three, the pivot parked at \<open>pr - 1\<close>, the scans, and the pivot put at the place where they
  met. The result is the segment and the place of the pivot.
\<close>

definition np_partition :: "('a \<Rightarrow> int) \<Rightarrow> 'a list \<Rightarrow> 'a list \<times> nat" where
  "np_partition key a =
     (let pr = length a - 1;
          pm = pr div 2;
          a1 = (if key (a ! pm) < key (a ! 0) then swap a pm 0 else a);
          a2 = (if key (a1 ! pr) < key (a1 ! pm) then swap a1 pr pm else a1);
          a3 = (if key (a2 ! pm) < key (a2 ! 0) then swap a2 pm 0 else a2);
          vp = key (a3 ! pm);
          a4 = swap a3 pm (pr - 1);
          (a5, i) = partition_loop key vp a4 0 (pr - 1)
      in (swap a5 i (pr - 1), i))"

text \<open>
  The insertion sort. The rows already in place are held last row first: \<open>shift_in\<close> moves a
  new row down past every row of strictly greater key.
\<close>

fun shift_in :: "('a \<Rightarrow> int) \<Rightarrow> 'a \<Rightarrow> 'a list \<Rightarrow> 'a list" where
  "shift_in key x [] = [x]"
| "shift_in key x (y # ys) = (if key x < key y then y # shift_in key x ys else x # y # ys)"

definition insertion_sort :: "('a \<Rightarrow> int) \<Rightarrow> 'a list \<Rightarrow> 'a list" where
  "insertion_sort key a = rev (fold (shift_in key) a [])"

text \<open>
  \<open>aheapsort\<close>, with the places of the C code, which count from 1: \<open>sift_down\<close> is its inner
  loop, run once for every \<open>l\<close> from \<open>n div 2\<close> down to 1 to build the heap, and once for every
  row taken off the heap.
\<close>

function sift_down :: "('a \<Rightarrow> int) \<Rightarrow> 'a \<Rightarrow> nat \<Rightarrow> 'a list \<Rightarrow> nat \<Rightarrow> nat \<Rightarrow> 'a list" where
  "sift_down key tmp n a i j =
     (if 0 < j \<and> j \<le> n then
        (let j1 = (if j < n \<and> key (a ! (j - 1)) < key (a ! j) then j + 1 else j)
         in if key tmp < key (a ! (j1 - 1))
            then sift_down key tmp n (a[i - 1 := a ! (j1 - 1)]) j1 (j1 + j1)
            else a[i - 1 := tmp])
      else a[i - 1 := tmp])"
  by pat_completeness auto
termination
  by (relation "measure (\<lambda>(key, tmp, n, a, i, j). Suc n - j)") auto

declare sift_down.simps [simp del]

definition heapify :: "('a \<Rightarrow> int) \<Rightarrow> 'a list \<Rightarrow> 'a list" where
  "heapify key a =
     fold (\<lambda>l b. sift_down key (b ! (l - 1)) (length a) b l (l + l))
       (rev [1 ..< length a div 2 + 1]) a"

fun heap_pop :: "('a \<Rightarrow> int) \<Rightarrow> nat \<Rightarrow> 'a list \<Rightarrow> 'a list" where
  "heap_pop key (Suc (Suc m)) a =
     heap_pop key (Suc m) (sift_down key (a ! Suc m) (Suc m) (a[Suc m := a ! 0]) 1 2)"
| "heap_pop key n a = a"

definition aheapsort :: "('a \<Rightarrow> int) \<Rightarrow> 'a list \<Rightarrow> 'a list" where
  "aheapsort key a = heap_pop key (length a) (heapify key a)"



text \<open>
  The introsort on one segment. \<open>popped\<close> tells whether the segment was taken from the stack
  (the whole table counts as such): only then is the depth left tested, before anything else.
  The part the C loop goes on with is the smaller one, the other is the one it pushes; both are
  given the depth left less one. The test of the pivot's place against the length is not in
  the C code, where the place is always inside the segment.
\<close>

function aquicksort :: "('a \<Rightarrow> int) \<Rightarrow> bool \<Rightarrow> int \<Rightarrow> 'a list \<Rightarrow> 'a list" where
  "aquicksort key popped cdepth a =
     (if popped \<and> cdepth < 0 then aheapsort key a
      else if 16 < length a - 1 then
        (let b = fst (np_partition key a);
             i = snd (np_partition key a);
             pr = length a - 1
         in if i < length a then
              (if i < pr - i
               then aquicksort key False (cdepth - 1) (take i b) @ b ! i #
                    aquicksort key True (cdepth - 1) (drop (Suc i) b)
               else aquicksort key True (cdepth - 1) (take i b) @ b ! i #
                    aquicksort key False (cdepth - 1) (drop (Suc i) b))
            else b)
      else insertion_sort key a)"
  by pat_completeness auto
termination
proof -
  have loop: "length (fst (partition_loop key vp a i j)) = length a"
    for key :: "'a \<Rightarrow> int" and vp a i j
    by (induction key vp a i j rule: partition_loop.induct)
       (subst partition_loop.simps, simp add: Let_def swap_def)
  have part: "length (fst (np_partition key a)) = length a" for key :: "'a \<Rightarrow> int" and a
    by (simp add: np_partition_def Let_def split_beta swap_def loop)
  show ?thesis
    by (relation "measure (\<lambda>(key, popped, cdepth, a). length a)") (auto simp add: part)
qed

declare aquicksort.simps [simp del]




section \<open>The specification's words\<close>

text \<open>
  The statistics as the specification words them, over real numbers: the arithmetic mean, the
  population standard deviation (divisor \<open>N\<close>), and the quantile that sorts the returns and
  interpolates linearly between the two order statistics around position \<open>(N - 1) * p\<close>.
\<close>

definition spec_mean :: "real list \<Rightarrow> real" where
  "spec_mean xs = sum_list xs / real (length xs)"

definition spec_pstd :: "real list \<Rightarrow> real" where
  "spec_pstd xs = sqrt (sum_list (map (\<lambda>x. (x - spec_mean xs)\<^sup>2) xs) / real (length xs))"

definition spec_quantile :: "real list \<Rightarrow> real \<Rightarrow> real" where
  "spec_quantile xs p =
     (let s = sort xs;
          h = real (length xs - 1) * p;
          j = nat \<lfloor>h\<rfloor>;
          g = h - real j
      in s ! j + g * (s ! min (j + 1) (length xs - 1) - s ! j))"

text \<open>The log returns of a price series: one for every price but the first.\<close>

definition spec_log_returns :: "real list \<Rightarrow> real list" where
  "spec_log_returns closes = map (\<lambda>t. ln (closes ! t / closes ! (t - 1))) [1 ..< length closes]"

text \<open>The value a calculator returns, without the state.\<close>

definition returned :: "error + (pyfloat option \<times> analyzer) \<Rightarrow> error + pyfloat option" where
  "returned r = map_sum id fst r"

text \<open>
  What the specification asks of an input table: dates that parse and strictly positive closing
  prices. \<open>fin_value\<close> reads the real number out of a finite float, \<open>raw_of\<close> a row without
  its return.
\<close>

definition parsed :: "date_cell \<Rightarrow> bool" where
  "parsed d = (case d of Stamp _ \<Rightarrow> True | _ \<Rightarrow> False)"

definition positive_price :: "pyfloat \<Rightarrow> bool" where
  "positive_price x = (case x of Fin a \<Rightarrow> 0 < a | _ \<Rightarrow> False)"

fun fin_value :: "pyfloat \<Rightarrow> real" where
  "fin_value (Fin a) = a"
| "fin_value _ = 0"

definition raw_of :: "row \<Rightarrow> raw_row" where
  "raw_of r = \<lparr>Date = Date r, Close = Close r, Other_na = Other_na r\<rparr>"

section \<open>Sample inputs\<close>

text \<open>
  A stable sort by date stands for \<open>sort_values\<close> in the examples, \<open>sample_ndtri\<close> for the
  normal quantile function (only its zero at one half is used), and the four returns are the
  specification's regression data. \<open>sample_rows\<close> is a frame holding these returns for the
  calculators to read; its prices play no part.
\<close>

definition stable_sort :: "raw_row list \<Rightarrow> raw_row list" where
  "stable_sort tbl = sort_key (\<lambda>r. date_key (Date r)) tbl"

definition sample_ndtri :: "real \<Rightarrow> real" where
  "sample_ndtri q = q - 1 / 2"

definition sample_returns :: "real list" where
  "sample_returns = [1 / 100, - 2 / 100, 15 / 1000, - 5 / 1000]"

definition sample_rows :: "row list" where
  "sample_rows =
     [\<lparr>Date = Stamp 1, Close = Fin 101, Other_na = False, Returns = Fin (1 / 100)\<rparr>,
      \<lparr>Date = Stamp 2, Close = Fin 99, Other_na = False, Returns = Fin (- 2 / 100)\<rparr>,
      \<lparr>Date = Stamp 3, Close = Fin 102, Other_na = False, Returns = Fin (15 / 1000)\<rparr>,
      \<lparr>Date = Stamp 4, Close = Fin 98, Other_na = False, Returns = Fin (- 5 / 1000)\<rparr>]"

definition sample_state :: "real \<Rightarrow> frame option \<Rightarrow> analyzer" where
  "sample_state c d =
     \<lparr>file_path = ''market_data.xlsx'', confidence_level = c, data = d, results = Map.empty\<rparr>"

text \<open>
  Four small tables, their rows out of date order: three days of prices; the same with an empty
  cell in some other column of the second day; three days at one price; and a single day.
\<close>

definition sample_table :: "raw_row list" where
  "sample_table =
     [\<lparr>Date = Stamp 2, Close = Fin 101, Other_na = False\<rparr>,
      \<lparr>Date = Stamp 1, Close = Fin 100, Other_na = False\<rparr>,
      \<lparr>Date = Stamp 3, Close = Fin 99, Other_na = False\<rparr>]"

definition gap_table :: "raw_row list" where
  "gap_table =
     [\<lparr>Date = Stamp 2, Close = Fin 101, Other_na = True\<rparr>,
      \<lparr>Date = Stamp 1, Close = Fin 100, Other_na = False\<rparr>,
      \<lparr>Date = Stamp 3, Close = Fin 99, Other_na = False\<rparr>]"

definition flat_table :: "raw_row list" where
  "flat_table =
     [\<lparr>Date = Stamp 2, Close = Fin 100, Other_na = False\<rparr>,
      \<lparr>Date = Stamp 1, Close = Fin 100, Other_na = False\<rparr>,
      \<lparr>Date = Stamp 3, Close = Fin 100, Other_na = False\<rparr>]"

definition single_row_table :: "raw_row list" where
  "single_row_table = [\<lparr>Date = Stamp 1, Close = Fin 100, Other_na = False\<rparr>]"




text \<open>
  Four returns, all of them doubles, in two orders; the second is a permutation of the first.
  \<open>rows_of_returns\<close> makes a frame that holds a given return column.
\<close>

definition rows_of_returns :: "pyfloat list \<Rightarrow> row list" where
  "rows_of_returns vs =
     map (\<lambda>v. \<lparr>Date = Stamp 0, Close = Fin 1, Other_na = False, Returns = v\<rparr>) vs"

definition ulp_returns :: "real list" where
  "ulp_returns = [1, 1 / 2 ^ 53, 1 / 2 ^ 53, 0]"

definition ulp_returns_reordered :: "real list" where
  "ulp_returns_reordered = [1 / 2 ^ 53, 1 / 2 ^ 53, 1, 0]"

section \<open>Calculators without data\<close>

text \<open>
  Claim C4, as the specification has it: when loading failed and \<open>self.data\<close> is \<open>None\<close>, both
  calculators return \<open>None\<close> and record nothing, and \<open>calculate_historical_var\<close> returns
  \<open>None\<close> for an empty return series as well. The second half fails: the method has no check
  for an empty series, and the quantile of an empty series is \<open>NaN\<close>, which is returned and
  recorded. At confidence 0.95, on a loaded frame with no rows:
\<close>

theorem historical_var_empty_series_counterexample:
  "calculate_historical_var (sample_state (95 / 100) (Some (Loaded []))) =
     Inr (Some NaN,
          (sample_state (95 / 100) (Some (Loaded [])))\<lparr>results := [''Historical VaR'' \<mapsto> NaN]\<rparr>)"
  by (simp add: sample_state_def calculate_historical_var_def returns_column_def pd_quantile_def)

text \<open>
  Claim C4, amended: an analyzer whose read of the file failed has \<open>self.data\<close> at \<open>None\<close>;
  when \<open>self.data\<close> is \<open>None\<close>, both calculators return \<open>None\<close> and leave the state as
  it is; on a loaded frame with an empty return series (and a confidence level
  in \<open>[0, 1]\<close>), \<open>calculate_historical_var\<close> returns \<open>NaN\<close>, not \<open>None\<close>, and records it
  under \<open>Historical VaR\<close>.
\<close>

theorem calculators_without_data:
  "data (init srt None path c) = None \<and>
   (data st = None \<longrightarrow>
      calculate_historical_var st = Inr (None, st) \<and>
      calculate_parametric_var ndtri st = Inr (None, st)) \<and>
   (data st = Some (Loaded []) \<and> 0 \<le> confidence_level st \<and> confidence_level st \<le> 1 \<longrightarrow>
      calculate_historical_var st =
        Inr (Some NaN, st\<lparr>results := (results st)(''Historical VaR'' \<mapsto> NaN)\<rparr>))"
  by (simp add: calculate_historical_var_def calculate_parametric_var_def returns_column_def
      pd_quantile_def init_def load_data_def MarketRiskAnalyzer_def)

theorem calculators_without_data_witness:
  "calculate_historical_var (sample_state (95 / 100) None) =
     Inr (None, sample_state (95 / 100) None) \<and>
   calculate_parametric_var sample_ndtri (sample_state (95 / 100) None) =
     Inr (None, sample_state (95 / 100) None) \<and>
   calculate_historical_var (sample_state (95 / 100) (Some (Loaded []))) =
     Inr (Some NaN,
          (sample_state (95 / 100) (Some (Loaded [])))\<lparr>results := [''Historical VaR'' \<mapsto> NaN]\<rparr>)"
  using calculators_without_data [where st = "sample_state (95 / 100) None"
      and ndtri = sample_ndtri]
    calculators_without_data [where st = "sample_state (95 / 100) (Some (Loaded []))"
      and ndtri = sample_ndtri]
  by (simp add: sample_state_def)

section \<open>What a calculator changes\<close>

text \<open>
  Claim C10: a calculator that returns has changed nothing but its own entry of the results:
  the file path, the confidence level, the loaded data and every other key of \<open>results\<close> are
  as before; with data loaded, its own entry holds the value it returned.
\<close>

theorem calculators_touch_own_entry:
  "(calculate_historical_var st = Inr (r, st') \<longrightarrow>
      file_path st' = file_path st \<and> confidence_level st' = confidence_level st \<and>
      data st' = data st \<and>
      (\<forall>k. k \<noteq> ''Historical VaR'' \<longrightarrow> results st' k = results st k) \<and>
      (data st \<noteq> None \<longrightarrow> results st' ''Historical VaR'' = r)) \<and>
   (calculate_parametric_var ndtri st = Inr (r, st') \<longrightarrow>
      file_path st' = file_path st \<and> confidence_level st' = confidence_level st \<and>
      data st' = data st \<and>
      (\<forall>k. k \<noteq> ''Parametric VaR'' \<longrightarrow> results st' k = results st k) \<and>
      (data st \<noteq> None \<longrightarrow> results st' ''Parametric VaR'' = r))"
  by (auto simp: calculate_historical_var_def calculate_parametric_var_def Let_def
      split: option.splits sum.splits)

theorem calculators_touch_own_entry_witness:
  "calculate_historical_var
     ((sample_state (95 / 100) (Some (Loaded sample_rows)))
        \<lparr>results := [''Parametric VaR'' \<mapsto> Fin (- 1 / 50)]\<rparr>) =
   Inr (Some (Fin (- 71 / 4000)),
        (sample_state (95 / 100) (Some (Loaded sample_rows)))
          \<lparr>results := [''Parametric VaR'' \<mapsto> Fin (- 1 / 50),
                        ''Historical VaR'' \<mapsto> Fin (- 71 / 4000)]\<rparr>)"
  using calculators_touch_own_entry
    [of "(sample_state (95 / 100) (Some (Loaded sample_rows)))
           \<lparr>results := [''Parametric VaR'' \<mapsto> Fin (- 1 / 50)]\<rparr>"]
  by (simp add: sample_state_def sample_rows_def calculate_historical_var_def
      returns_column_def pd_quantile_def notna_def np_quantile_linear_def fkey_def lerp_def
      fsub_def)

section \<open>The report\<close>

text \<open>
  Claim C5: whatever the results mapping holds, the report never fails over a missing result
  key. Whether the method ends in an exception does not depend on the results at all, and on
  a loaded frame it ends in none; an absent \<open>Historical VaR\<close> or \<open>Parametric VaR\<close> is
  printed exactly as a stored zero would be, in the two result lines and in the interpretive
  sentence, which prints the parametric value times minus one.
\<close>

theorem report_defaults_missing_results:
  "snd (generate_risk_report (st\<lparr>results := m\<rparr>)) = snd (generate_risk_report st) \<and>
   (data st = Some (Loaded rs) \<longrightarrow> snd (generate_risk_report st) = None) \<and>
   (results st k = None \<and> (k = ''Historical VaR'' \<or> k = ''Parametric VaR'') \<longrightarrow>
      generate_risk_report st = generate_risk_report (st\<lparr>results := (results st)(k \<mapsto> Fin 0)\<rparr>)) \<and>
   (data st = Some (Loaded rs) \<and> results st ''Historical VaR'' = None \<longrightarrow>
      fst (generate_risk_report st) ! 6 = [Lit ''1. Historical VaR:   '', Percent 4 (Fin 0)]) \<and>
   (data st = Some (Loaded rs) \<and> results st ''Parametric VaR'' = None \<longrightarrow>
      fst (generate_risk_report st) ! 7 = [Lit ''2. Parametric VaR:   '', Percent 4 (Fin 0)] \<and>
      fst (generate_risk_report st) ! 11 =
        [Lit ''will not exceed '', Percent 2 (Fin 0), Lit '' (Parametric model).''])"
  by (auto simp: generate_risk_report_def report_head_def report_body_def dict_get_def
      returns_column_def split: option.splits sum.splits frame.splits)

theorem report_defaults_missing_results_witness:
  "generate_risk_report (sample_state (97 / 100) (Some (Loaded sample_rows))) =
   generate_risk_report ((sample_state (97 / 100) (Some (Loaded sample_rows)))
      \<lparr>results := [''Historical VaR'' \<mapsto> Fin 0]\<rparr>) \<and>
   snd (generate_risk_report (sample_state (97 / 100) (Some (Loaded sample_rows)))) = None \<and>
   fst (generate_risk_report (sample_state (97 / 100) (Some (Loaded sample_rows)))) ! 6 =
        [Lit ''1. Historical VaR:   '', Percent 4 (Fin 0)] \<and>
   fst (generate_risk_report (sample_state (97 / 100) (Some (Loaded sample_rows)))) ! 11 =
        [Lit ''will not exceed '', Percent 2 (Fin 0), Lit '' (Parametric model).'']"
  using report_defaults_missing_results
    [where st = "sample_state (97 / 100) (Some (Loaded sample_rows))" and rs = sample_rows
       and k = "''Historical VaR''" and m = Map.empty]
  by (simp add: sample_state_def generate_risk_report_def report_head_def report_body_def
      dict_get_def returns_column_def)


section \<open>Series of finite values\<close>

text \<open>
  On a series of finite values the library operations are plain real arithmetic: nothing is
  masked out, sums are sums, the ordering is that of the reals and the interpolation has one
  form on both sides of one half.
\<close>

lemma fold_fadd_Fin: "fold fadd (map Fin xs) (Fin a) = Fin (a + sum_list xs)"
  by (induction xs arbitrary: a) (simp_all add: add.commute add.left_commute)

lemma fsum_Fin: "fsum (map Fin xs) = Fin (sum_list xs)"
  by (simp add: fsum_def fold_fadd_Fin)

lemma filter_notna_Fin: "filter notna (map Fin xs) = map Fin xs"
  by (induction xs) (simp_all add: notna_def)

lemma nanmean_Fin: "xs \<noteq> [] \<Longrightarrow> nanmean (map Fin xs) = Fin (spec_mean xs)"
  by (simp add: nanmean_def filter_notna_Fin fsum_Fin spec_mean_def)

lemma sqr_Fin:
  "map (\<lambda>v. fmul (fsub (Fin m) v) (fsub (Fin m) v)) (map Fin xs) = map Fin (map (\<lambda>x. (x - m)\<^sup>2) xs)"
  by (induction xs) (simp_all add: fsub_def power2_eq_square algebra_simps)

lemma nanvar_Fin:
  "xs \<noteq> [] \<Longrightarrow>
   nanvar 0 (map Fin xs) = Fin (sum_list (map (\<lambda>x. (x - spec_mean xs)\<^sup>2) xs) / real (length xs))"
proof -
  assume ne: "xs \<noteq> []"
  have "nanvar 0 (map Fin xs) =
        fdiv (fsum (map (\<lambda>v. fmul (fsub (Fin (spec_mean xs)) v) (fsub (Fin (spec_mean xs)) v))
          (map Fin xs))) (Fin (real (length xs)))"
    using ne by (simp add: nanvar_def Let_def filter_notna_Fin fsum_Fin spec_mean_def del: map_map)
  also have "\<dots> = Fin (sum_list (map (\<lambda>x. (x - spec_mean xs)\<^sup>2) xs) / real (length xs))"
    using ne by (simp only: sqr_Fin fsum_Fin) simp
  finally show ?thesis .
qed

lemma sum_list_squares_nonneg: "0 \<le> sum_list (map (\<lambda>x. (x - m)\<^sup>2) (xs :: real list))"
  by (rule sum_list_nonneg) auto

lemma np_std_Fin: "xs \<noteq> [] \<Longrightarrow> np_std (map Fin xs) = Fin (spec_pstd xs)"
  by (simp add: np_std_def nanstd_def nanvar_Fin spec_pstd_def sum_list_squares_nonneg)

lemma inj_fkey: "inj fkey"
  by (auto simp: inj_def fkey_def split: pyfloat.splits)

lemma sort_key_fkey_mset: "mset xs = mset ys \<Longrightarrow> sort_key fkey xs = sort_key fkey ys"
  by (rule sort_key_inj_key_eq) (auto intro: inj_on_subset [OF inj_fkey])

lemma sort_key_fkey_Fin: "sort_key fkey (map Fin xs) = map Fin (sort xs)"
proof (rule sort_key_inj_key_eq)
  show "mset (map Fin xs) = mset (map Fin (sort xs))" by simp
  show "inj_on fkey (set (map Fin xs))" by (rule inj_on_subset [OF inj_fkey]) simp
  have "sorted (sort xs)" by simp
  then show "sorted (map fkey (map Fin (sort xs)))"
    by (simp add: sorted_map fkey_def sorted_wrt_map)
qed

lemma lerp_Fin: "lerp (Fin a) (Fin b) t = Fin (a + (b - a) * t)"
  by (simp add: lerp_def fsub_def Let_def algebra_simps)

lemma np_quantile_linear_Fin:
  assumes ne: "xs \<noteq> []" and q0: "0 \<le> q" and q1: "q \<le> 1"
  shows "np_quantile_linear (map Fin xs) q = Fin (spec_quantile xs q)"
proof -
  obtain m where len: "length xs = Suc m"
    using ne by (cases xs) auto
  define h where "h = real m * q"
  have h0: "0 \<le> h" using q0 by (simp add: h_def)
  have h_le: "h \<le> real m" using q1 by (simp add: h_def mult_left_le)
  show ?thesis
  proof (cases "h \<ge> real m")
    case True
    then have h_eq: "h = real m" using h_le by simp
    have "np_quantile_linear (map Fin xs) q = Fin (sort xs ! m)"
      using True
      by (simp add: np_quantile_linear_def sort_key_fkey_Fin Let_def len h_def [symmetric]
          lerp_Fin)
    moreover have "spec_quantile xs q = sort xs ! m"
      by (simp add: spec_quantile_def Let_def len h_def [symmetric] h_eq)
    ultimately show ?thesis by simp
  next
    case False
    define j where "j = nat \<lfloor>h\<rfloor>"
    have j_real: "real j = of_int \<lfloor>h\<rfloor>" using h0 by (simp add: j_def)
    have "of_int \<lfloor>h\<rfloor> \<le> h" by simp
    then have "real j < real m" using False j_real by linarith
    then have j_lt: "j < m" by simp
    have "np_quantile_linear (map Fin xs) q =
          Fin (sort xs ! j + (sort xs ! Suc j - sort xs ! j) * (h - of_int \<lfloor>h\<rfloor>))"
      using False j_lt
      by (simp add: np_quantile_linear_def sort_key_fkey_Fin Let_def len h_def [symmetric]
          j_def [symmetric] lerp_Fin)
    moreover have "spec_quantile xs q =
          sort xs ! j + (h - of_int \<lfloor>h\<rfloor>) * (sort xs ! Suc j - sort xs ! j)"
      using j_lt
      by (simp add: spec_quantile_def Let_def len h_def [symmetric] j_def [symmetric] j_real
          min_def)
    ultimately show ?thesis by (simp add: mult.commute)
  qed
qed

lemma pd_quantile_Fin:
  "xs \<noteq> [] \<Longrightarrow> 0 \<le> q \<Longrightarrow> q \<le> 1 \<Longrightarrow> pd_quantile (map Fin xs) q = Inr (Fin (spec_quantile xs q))"
  by (simp add: pd_quantile_def filter_notna_Fin np_quantile_linear_Fin)

subsection \<open>Reordering a series\<close>

text \<open>
  The sort key of the floats is one to one, so the ordered series, and with it the quantile,
  does not depend on the order of the entries.
\<close>

lemma pd_quantile_mset: "mset xs = mset ys \<Longrightarrow> pd_quantile xs q = pd_quantile ys q"
proof -
  assume eq: "mset xs = mset ys"
  then have f: "mset (filter notna xs) = mset (filter notna ys)" by simp
  then have "filter notna xs = [] \<longleftrightarrow> filter notna ys = []"
    by (metis mset_zero_iff)
  moreover have "length (filter notna xs) = length (filter notna ys)"
    using f by (metis size_mset)
  ultimately show ?thesis
    using sort_key_fkey_mset [OF f]
    by (simp add: pd_quantile_def np_quantile_linear_def Let_def)
qed

section \<open>Parametric VaR\<close>

text \<open>
  Claim C1: on a non-empty return series and a confidence level \<open>c\<close> in \<open>(0, 1)\<close>,
  \<open>calculate_parametric_var\<close> returns (and records) \<open>mu + z * sigma\<close>, with \<open>mu\<close> the
  arithmetic mean, \<open>sigma\<close> the population standard deviation (divisor \<open>N\<close>) and \<open>z\<close> the
  normal quantile function at \<open>1 - c\<close>; at \<open>c = 0.5\<close>, where that function is zero, the
  result is the mean.
\<close>

theorem parametric_var_is_mean_plus_z_sigma:
  assumes "data st = Some (Loaded rs)" and "map Returns rs = map Fin xs" and "xs \<noteq> []"
    and "0 < confidence_level st" and "confidence_level st < 1"
  shows "calculate_parametric_var ndtri st =
           Inr (Some (Fin (spec_mean xs + ndtri (1 - confidence_level st) * spec_pstd xs)),
                st\<lparr>results := (results st)(''Parametric VaR'' \<mapsto>
                  Fin (spec_mean xs + ndtri (1 - confidence_level st) * spec_pstd xs))\<rparr>) \<and>
         (confidence_level st = 1 / 2 \<and> ndtri (1 / 2) = 0 \<longrightarrow>
            returned (calculate_parametric_var ndtri st) = Inr (Some (Fin (spec_mean xs))))"
proof -
  have main: "calculate_parametric_var ndtri st =
           Inr (Some (Fin (spec_mean xs + ndtri (1 - confidence_level st) * spec_pstd xs)),
                st\<lparr>results := (results st)(''Parametric VaR'' \<mapsto>
                  Fin (spec_mean xs + ndtri (1 - confidence_level st) * spec_pstd xs))\<rparr>)"
    using assms
    by (simp add: calculate_parametric_var_def returns_column_def np_mean_def nanmean_Fin
        np_std_Fin norm_ppf_def Let_def)
  have "returned (calculate_parametric_var ndtri st) = Inr (Some (Fin (spec_mean xs)))"
    if half: "confidence_level st = 1 / 2" and zero: "ndtri (1 / 2) = 0"
  proof -
    have "1 - confidence_level st = 1 / 2"
      unfolding half by simp
    then have "ndtri (1 - confidence_level st) = 0"
      using zero by (simp only:)
    then show ?thesis
      by (simp add: main returned_def)
  qed
  with main show ?thesis by blast
qed

theorem parametric_var_is_mean_plus_z_sigma_witness:
  "calculate_parametric_var sample_ndtri (sample_state (1 / 2) (Some (Loaded sample_rows))) =
     Inr (Some (Fin 0),
          (sample_state (1 / 2) (Some (Loaded sample_rows)))
            \<lparr>results := [''Parametric VaR'' \<mapsto> Fin 0]\<rparr>)"
  using parametric_var_is_mean_plus_z_sigma
    [where st = "sample_state (1 / 2) (Some (Loaded sample_rows))" and rs = sample_rows
       and xs = sample_returns and ndtri = sample_ndtri]
  by (simp add: sample_state_def sample_rows_def sample_returns_def sample_ndtri_def
      spec_mean_def)

section \<open>Historical VaR\<close>

text \<open>
  Claim C2: on a non-empty return series and a confidence level \<open>c\<close> in \<open>(0, 1)\<close>,
  \<open>calculate_historical_var\<close> returns (and records) the quantile of the returns at fraction
  \<open>1 - c\<close> that sorts them ascending and interpolates linearly between adjacent order
  statistics.
\<close>

theorem historical_var_is_linear_quantile:
  assumes "data st = Some (Loaded rs)" and "map Returns rs = map Fin xs" and "xs \<noteq> []"
    and "0 < confidence_level st" and "confidence_level st < 1"
  shows "calculate_historical_var st =
           Inr (Some (Fin (spec_quantile xs (1 - confidence_level st))),
                st\<lparr>results := (results st)(''Historical VaR'' \<mapsto>
                  Fin (spec_quantile xs (1 - confidence_level st)))\<rparr>)"
  using assms
  by (simp add: calculate_historical_var_def returns_column_def pd_quantile_Fin Let_def)

theorem historical_var_is_linear_quantile_witness:
  "calculate_historical_var (sample_state (95 / 100) (Some (Loaded sample_rows))) =
     Inr (Some (Fin (- 71 / 4000)),
          (sample_state (95 / 100) (Some (Loaded sample_rows)))
            \<lparr>results := [''Historical VaR'' \<mapsto> Fin (- 71 / 4000)]\<rparr>)"
  using historical_var_is_linear_quantile
    [where st = "sample_state (95 / 100) (Some (Loaded sample_rows))" and rs = sample_rows
       and xs = sample_returns]
  by (simp add: sample_state_def sample_rows_def sample_returns_def spec_quantile_def)

section \<open>Reordering the returns\<close>

subsection \<open>Rounding at the sample values\<close>

lemma pow2_powr: "pow2 k = 2 powr (of_int k)"
  by (simp add: pow2_def powr_real_of_int field_simps)

lemma pow2_pos: "0 < pow2 k"
  by (simp add: pow2_powr)

text \<open>The rounding of a number whose binade is known.\<close>

lemma round_double_eq:
  assumes "pow2 e \<le> \<bar>x\<bar>" and "\<bar>x\<bar> < pow2 (e + 1)"
  shows "round_double x = pow2 (e - 52) * of_int (round_half_even (x / pow2 (e - 52)))"
proof -
  have pos: "0 < \<bar>x\<bar>" using assms(1) pow2_pos [of e] by linarith
  then have nz: "x \<noteq> 0" by auto
  have "\<lfloor>log 2 \<bar>x\<bar>\<rfloor> = e"
    using assms pos by (subst floor_log_eq_powr_iff) (simp_all add: pow2_powr)
  then show ?thesis
    using nz by (simp add: round_double_def Let_def)
qed

lemma rd_1: "round_double 1 = 1"
  by (simp add: round_double_eq [where e = 0] pow2_def round_half_even_def)

text \<open>Half a unit in the last place above 1 is a tie, and rounds to the even neighbour, 1.\<close>

lemma rd_1_tie: "round_double (1 + 1 / 2 ^ 53) = 1"
  by (simp add: round_double_eq [where e = 0] pow2_def round_half_even_def)

lemma rd_quarter: "round_double (1 / 4) = 1 / 4"
  by (simp add: round_double_eq [where e = "- 2"] pow2_def round_half_even_def)

lemma rd_half: "round_double (1 / 2) = 1 / 2"
  by (simp add: round_double_eq [where e = "- 1"] pow2_def round_half_even_def)

lemma rd_53: "round_double (1 / 2 ^ 53) = 1 / 2 ^ 53"
  by (simp add: round_double_eq [where e = "- 53"] pow2_def round_half_even_def)

lemma rd_52: "round_double (1 / 2 ^ 52) = 1 / 2 ^ 52"
  by (simp add: round_double_eq [where e = "- 52"] pow2_def round_half_even_def)

lemma rd_1_52: "round_double (1 + 1 / 2 ^ 52) = 1 + 1 / 2 ^ 52"
  by (simp add: round_double_eq [where e = 0] pow2_def round_half_even_def)

lemma rd_quarter_54: "round_double (1 / 4 + 1 / 2 ^ 54) = 1 / 4 + 1 / 2 ^ 54"
  by (simp add: round_double_eq [where e = "- 2"] pow2_def round_half_even_def)

lemma rd_2_53: "round_double (2 / 2 ^ 53) = 1 / 2 ^ 52"
proof -
  have "(2 / 2 ^ 53 :: real) = 1 / 2 ^ 52" by simp
  then show ?thesis by (simp only: rd_52)
qed

lemma rd_52_1: "round_double (1 / 2 ^ 52 + 1) = 1 / 2 ^ 52 + 1"
  by (simp only: add.commute [of "1 / 2 ^ 52" "1::real"] rd_1_52)

lemma rd_52_1_4: "round_double ((1 / 2 ^ 52 + 1) / 4) = 1 / 4 + 1 / 2 ^ 54"
proof -
  have "((1 / 2 ^ 52 + 1) / 4 :: real) = 1 / 4 + 1 / 2 ^ 54" by simp
  then show ?thesis by (simp only: rd_quarter_54)
qed

lemma round_double_0: "round_double 0 = 0"
  by (simp add: round_double_def)

lemma round_half_even_nonneg: "0 \<le> x \<Longrightarrow> 0 \<le> round_half_even x"
  by (auto simp: round_half_even_def Let_def)

lemma round_double_nonneg: "0 \<le> x \<Longrightarrow> 0 \<le> round_double x"
proof (cases "x = 0")
  case True
  then show ?thesis by (simp add: round_double_def)
next
  case False
  assume "0 \<le> x"
  define u where "u = pow2 (\<lfloor>log 2 \<bar>x\<bar>\<rfloor> - 52)"
  have u: "0 < u" unfolding u_def by (rule pow2_pos)
  then have "0 \<le> x / u" using \<open>0 \<le> x\<close> by simp
  then have "0 \<le> round_half_even (x / u)" by (rule round_half_even_nonneg)
  then have "0 \<le> u * of_int (round_half_even (x / u))"
    using u by simp
  then show ?thesis
    using False by (simp add: round_double_def Let_def u_def)
qed

lemma rounded_Fin: "rounded (Fin a) = Fin (round_double a)"
  by (simp add: rounded_def)

subsection \<open>Short columns\<close>

text \<open>
  A column of fewer than eight values is added in row order. Its sum, mean and standard
  deviation are finite when its values are.
\<close>

lemma pairwise_sum_short:
  "length a < 8 \<Longrightarrow> pairwise_sum a = fold (\<lambda>x res. radd res x) a (Fin 0)"
  by (subst pairwise_sum.simps) (simp add: Let_def)

lemma fold_radd_Fin:
  "\<exists>s. fold (\<lambda>x res. radd res x) (map Fin xs) (Fin a) = Fin s \<and>
       ((0 \<le> a \<and> (\<forall>x \<in> set xs. 0 \<le> x)) \<longrightarrow> 0 \<le> s)"
proof (induction xs arbitrary: a)
  case Nil
  then show ?case by simp
next
  case (Cons x xs)
  have "0 \<le> round_double (a + x)" if "0 \<le> a" "0 \<le> x"
    using that by (intro round_double_nonneg) simp
  with Cons [of "round_double (a + x)"] show ?case
    by (auto simp: radd_def rounded_Fin)
qed

lemma nanstd_rounded_Fin:
  assumes "xs \<noteq> []" and "length xs < 8"
  shows "\<exists>s. nanstd_rounded 0 (map Fin xs) = Fin s"
proof -
  have short: "pairwise_sum (map Fin ys) = fold (\<lambda>x res. radd res x) (map Fin ys) (Fin 0)"
    if "length ys = length xs" for ys
    using that assms(2) by (simp add: pairwise_sum_short)
  obtain t where t: "pairwise_sum (map Fin xs) = Fin t"
    using fold_radd_Fin [of xs 0] by (auto simp: short)
  define m where "m = round_double (t / real (length xs))"
  define sq where "sq = map (\<lambda>x. round_double (round_double (m - x) * round_double (m - x))) xs"
  have avg: "rounded (fdiv (pairwise_sum (map Fin xs)) (Fin (real (length xs)))) = Fin m"
    using assms(1) by (simp add: t rounded_Fin m_def)
  have sqr: "map (\<lambda>v. rounded (fmul (rounded (fsub (Fin m) v)) (rounded (fsub (Fin m) v))))
      (map Fin xs) = map Fin sq"
    by (simp add: sq_def rounded_Fin fsub_def)
  have "\<forall>x \<in> set sq. 0 \<le> x"
    by (auto simp: sq_def intro!: round_double_nonneg)
  moreover have "length sq = length xs"
    by (simp add: sq_def)
  ultimately obtain s where s: "pairwise_sum (map Fin sq) = Fin s" "0 \<le> s"
    using fold_radd_Fin [of sq 0] by (auto simp: short)
  have "0 \<le> round_double (s / real (length xs))"
    using s(2) by (intro round_double_nonneg) simp
  then show ?thesis
    using assms(1)
    by (simp add: nanstd_rounded_def nanvar_rounded_def Let_def filter_notna_Fin avg sqr s
        rounded_Fin del: map_map)
qed

lemma mean_forward: "nanmean_rounded (map Fin ulp_returns) = Fin (1 / 4)"
  by (simp add: nanmean_rounded_def ulp_returns_def notna_def pairwise_sum_short radd_def
      rounded_Fin rd_1 rd_1_tie rd_quarter del: power_numeral)

lemma mean_reordered:
  "nanmean_rounded (map Fin ulp_returns_reordered) = Fin (1 / 4 + 1 / 2 ^ 54)"
  by (simp add: nanmean_rounded_def ulp_returns_reordered_def notna_def pairwise_sum_short
      radd_def rounded_Fin rd_53 rd_2_53 rd_52_1 rd_52_1_4 del: power_numeral)

lemma Returns_rows_of_returns: "map Returns (rows_of_returns vs) = vs"
  by (induction vs) (simp_all add: rows_of_returns_def)

text \<open>
  At the confidence level one half the quantile of the normal distribution is zero, and the
  Parametric VaR of a short finite column is its mean.
\<close>

lemma parametric_rounded_at_half:
  assumes "xs \<noteq> []" and "length xs < 8"
    and "nanmean_rounded (map Fin xs) = Fin m" and "round_double m = m"
  shows "returned (calculate_parametric_var_rounded sample_ndtri
           (sample_state (1 / 2) (Some (Loaded (rows_of_returns (map Fin xs)))))) =
         Inr (Some (Fin m))"
proof -
  obtain s where s: "nanstd_rounded 0 (map Fin xs) = Fin s"
    using nanstd_rounded_Fin [OF assms(1,2)] by blast
  show ?thesis
    by (simp add: calculate_parametric_var_rounded_def sample_state_def returns_column_def
        Returns_rows_of_returns assms(3,4) s rd_half norm_ppf_def sample_ndtri_def rounded_Fin
        round_double_0 returned_def Let_def del: map_map)
qed

text \<open>
  Claim C9, as the specification has it: reordering the returns changes neither estimator.
  For the Parametric VaR this fails. \<open>np.mean\<close> and \<open>np.std\<close> add the returns in row order,
  and a sum of floats depends on that order: the returns \<open>1, 2^-53, 2^-53, 0\<close> add up to 1 (each
  of the two small terms is lost, a tie rounded to even), with mean 0.25; in the order
  \<open>2^-53, 2^-53, 1, 0\<close> they add up to \<open>1 + 2^-52\<close>, with mean \<open>0.25 + 2^-54\<close>
  (0.25000000000000006). At the confidence level one half the Parametric VaR is that mean:
\<close>

theorem parametric_var_row_order_counterexample:
  "mset ulp_returns_reordered = mset ulp_returns \<and>
   returned (calculate_parametric_var_rounded sample_ndtri
      (sample_state (1 / 2) (Some (Loaded (rows_of_returns (map Fin ulp_returns)))))) =
     Inr (Some (Fin (1 / 4))) \<and>
   returned (calculate_parametric_var_rounded sample_ndtri
      (sample_state (1 / 2) (Some (Loaded (rows_of_returns (map Fin ulp_returns_reordered)))))) =
     Inr (Some (Fin (1 / 4 + 1 / 2 ^ 54)))"
proof -
  have "mset ulp_returns_reordered = mset ulp_returns"
    by (simp add: ulp_returns_def ulp_returns_reordered_def)
  moreover have "ulp_returns \<noteq> []" and "ulp_returns_reordered \<noteq> []"
    and "length ulp_returns < 8" and "length ulp_returns_reordered < 8"
    by (simp_all add: ulp_returns_def ulp_returns_reordered_def)
  ultimately show ?thesis
    using parametric_rounded_at_half [OF _ _ mean_forward rd_quarter]
      parametric_rounded_at_half [OF _ _ mean_reordered rd_quarter_54]
    by simp
qed

text \<open>
  Claim C9, amended: the Historical VaR is permutation-invariant: two frames whose return
  columns are permutations of each other give the same Historical VaR (or the same exception)
  at every confidence level, the quantile being read off the sorted column. The Parametric
  VaR is not: it depends on the order of the rows through the rounding of its sums.
\<close>

theorem historical_var_permutation_invariant:
  assumes "mset (map Returns rs') = mset (map Returns rs)"
  shows "returned (calculate_historical_var (st\<lparr>data := Some (Loaded rs')\<rparr>)) =
           returned (calculate_historical_var (st\<lparr>data := Some (Loaded rs)\<rparr>))"
  using pd_quantile_mset [OF assms]
  by (simp add: calculate_historical_var_def returns_column_def returned_def Let_def
      split: sum.splits)

theorem historical_var_permutation_invariant_witness:
  "returned (calculate_historical_var
      (sample_state (95 / 100) (Some (Loaded (rev sample_rows))))) = Inr (Some (Fin (- 71 / 4000))) \<and>
   returned (calculate_historical_var
      (sample_state (95 / 100) (Some (Loaded sample_rows)))) = Inr (Some (Fin (- 71 / 4000)))"
  using historical_var_permutation_invariant
    [where rs' = "rev sample_rows" and rs = sample_rows
       and st = "sample_state (95 / 100) None"]
  by (simp add: sample_state_def sample_rows_def calculate_historical_var_def
      returns_column_def pd_quantile_def notna_def np_quantile_linear_def fkey_def lerp_def
      fsub_def returned_def)

section \<open>Historical VaR against the confidence level\<close>

text \<open>
  Interpolating between neighbours of an ascending list gives a value between the two, so the
  interpolated value can only grow with the position; the quantile is therefore monotone in its
  fraction.
\<close>

lemma interp_bounds:
  fixes s :: "real list"
  assumes srt: "sorted s" and len: "length s = Suc m" and h0: "0 \<le> h" and hm: "h \<le> real m"
  defines "j \<equiv> nat \<lfloor>h\<rfloor>"
  shows "s ! j \<le> s ! j + (h - real j) * (s ! min (j + 1) m - s ! j)"
    and "s ! j + (h - real j) * (s ! min (j + 1) m - s ! j) \<le> s ! min (j + 1) m"
    and "j \<le> m"
proof -
  have j_real: "real j = of_int \<lfloor>h\<rfloor>" using h0 by (simp add: j_def)
  have g0: "0 \<le> h - real j" using j_real by linarith
  have g1: "h - real j \<le> 1" using j_real by linarith
  have "real j \<le> real m" using j_real hm by linarith
  then show jm: "j \<le> m" by simp
  have "s ! j \<le> s ! min (j + 1) m"
    using srt jm by (intro sorted_nth_mono) (auto simp: len)
  then have d0: "0 \<le> s ! min (j + 1) m - s ! j" by simp
  show "s ! j \<le> s ! j + (h - real j) * (s ! min (j + 1) m - s ! j)"
    using g0 d0 by simp
  have "(h - real j) * (s ! min (j + 1) m - s ! j) \<le> 1 * (s ! min (j + 1) m - s ! j)"
    using g1 d0 by (rule mult_right_mono)
  then show "s ! j + (h - real j) * (s ! min (j + 1) m - s ! j) \<le> s ! min (j + 1) m"
    by simp
qed

lemma interp_mono:
  fixes s :: "real list"
  assumes srt: "sorted s" and len: "length s = Suc m"
    and h0: "0 \<le> h1" and h12: "h1 \<le> h2" and hm: "h2 \<le> real m"
  shows "s ! nat \<lfloor>h1\<rfloor> + (h1 - real (nat \<lfloor>h1\<rfloor>)) *
           (s ! min (nat \<lfloor>h1\<rfloor> + 1) m - s ! nat \<lfloor>h1\<rfloor>)
         \<le> s ! nat \<lfloor>h2\<rfloor> + (h2 - real (nat \<lfloor>h2\<rfloor>)) *
           (s ! min (nat \<lfloor>h2\<rfloor> + 1) m - s ! nat \<lfloor>h2\<rfloor>)"
proof -
  define j1 where "j1 = nat \<lfloor>h1\<rfloor>"
  define j2 where "j2 = nat \<lfloor>h2\<rfloor>"
  have h1m: "h1 \<le> real m" using h12 hm by simp
  have h20: "0 \<le> h2" using h0 h12 by simp
  note b1 = interp_bounds [OF srt len h0 h1m, folded j1_def]
  note b2 = interp_bounds [OF srt len h20 hm, folded j2_def]
  have j12: "j1 \<le> j2"
    unfolding j1_def j2_def using h12 by (intro nat_mono floor_mono)
  show ?thesis
  proof (cases "j1 = j2")
    case True
    have "s ! j2 \<le> s ! min (j2 + 1) m"
      using srt b2(3) by (intro sorted_nth_mono) (auto simp: len)
    then have "(h1 - real j2) * (s ! min (j2 + 1) m - s ! j2)
        \<le> (h2 - real j2) * (s ! min (j2 + 1) m - s ! j2)"
      using h12 by (intro mult_right_mono) simp_all
    then show ?thesis
      unfolding j1_def [symmetric] j2_def [symmetric] True by simp
  next
    case False
    then have lt: "j1 + 1 \<le> j2" using j12 by simp
    have "s ! min (j1 + 1) m \<le> s ! j2"
      using srt lt b2(3) by (intro sorted_nth_mono) (auto simp: len)
    then show ?thesis
      unfolding j1_def [symmetric] j2_def [symmetric] using b1(2) b2(1) by linarith
  qed
qed

lemma spec_quantile_mono:
  assumes ne: "xs \<noteq> []" and p0: "0 \<le> p" and pq: "p \<le> q" and q1: "q \<le> 1"
  shows "spec_quantile xs p \<le> spec_quantile xs q"
proof -
  obtain m where len: "length xs = Suc m"
    using ne by (cases xs) auto
  have a: "0 \<le> real m * p" using p0 by simp
  have b: "real m * p \<le> real m * q" using pq by (simp add: mult_left_mono)
  have c: "real m * q \<le> real m" using q1 by (simp add: mult_left_le)
  have "sorted (sort xs)" and "length (sort xs) = Suc m"
    by (simp_all add: len)
  from interp_mono [OF this a b c] show ?thesis
    by (simp add: spec_quantile_def Let_def len)
qed


text \<open>
  Claim C6: on a fixed non-empty return series, for confidence levels \<open>c1 < c2\<close> in \<open>(0, 1)\<close>
  both runs of \<open>calculate_historical_var\<close> return a finite value, and the one at \<open>c2\<close> is
  at most the one at \<open>c1\<close>.
\<close>

theorem historical_var_monotone_in_confidence:
  assumes "data st = Some (Loaded rs)" and "map Returns rs = map Fin xs" and "xs \<noteq> []"
    and "0 < c1" and "c1 < c2" and "c2 < 1"
  shows "\<exists>v1 v2.
           returned (calculate_historical_var (st\<lparr>confidence_level := c1\<rparr>)) = Inr (Some (Fin v1)) \<and>
           returned (calculate_historical_var (st\<lparr>confidence_level := c2\<rparr>)) = Inr (Some (Fin v2)) \<and>
           v2 \<le> v1"
proof -
  have "spec_quantile xs (1 - c2) \<le> spec_quantile xs (1 - c1)"
    using assms by (intro spec_quantile_mono) simp_all
  moreover have "returned (calculate_historical_var (st\<lparr>confidence_level := c\<rparr>)) =
      Inr (Some (Fin (spec_quantile xs (1 - c))))" if "0 < c" "c < 1" for c
    using assms(1-3) that
    by (simp add: calculate_historical_var_def returns_column_def pd_quantile_Fin Let_def
        returned_def)
  ultimately show ?thesis
    using assms by force
qed

theorem historical_var_monotone_in_confidence_witness:
  "returned (calculate_historical_var (sample_state (90 / 100) (Some (Loaded sample_rows)))) =
     Inr (Some (Fin (- 31 / 2000))) \<and>
   returned (calculate_historical_var (sample_state (95 / 100) (Some (Loaded sample_rows)))) =
     Inr (Some (Fin (- 71 / 4000))) \<and>
   (- 71 / 4000 :: real) \<le> - 31 / 2000"
  using historical_var_monotone_in_confidence
    [where st = "sample_state (90 / 100) (Some (Loaded sample_rows))" and rs = sample_rows
       and xs = sample_returns and ?c1.0 = "90 / 100" and ?c2.0 = "95 / 100"]
  by (simp add: sample_state_def sample_rows_def sample_returns_def calculate_historical_var_def
      returns_column_def pd_quantile_def notna_def np_quantile_linear_def fkey_def lerp_def
      fsub_def returned_def)

section \<open>Loading\<close>

lemma stable_sort_sorts_by_date: "sorts_by_date stable_sort"
  by (simp add: sorts_by_date_def stable_sort_def)

text \<open>
  Claim C3, as the specification has it: a table of \<open>N + 1\<close> rows with parseable dates and
  strictly positive prices gives exactly \<open>N\<close> log returns, and dropping the undefined first
  return removes exactly one row. \<open>dropna()\<close> is called without a subset, so it also removes
  every row with an empty cell in any other column. Three such rows, the second day with an
  empty cell elsewhere, leave one return instead of two:
\<close>

theorem load_data_drops_incomplete_rows_counterexample:
  "list_all (\<lambda>r. parsed (Date r) \<and> positive_price (Close r)) gap_table \<and>
   length gap_table = 3 \<and>
   data (load_data stable_sort (Some gap_table)
           (MarketRiskAnalyzer ''market_data.xlsx'' (95 / 100))) =
     Some (Loaded [\<lparr>Date = Stamp 3, Close = Fin 99, Other_na = False,
                     Returns = Fin (ln (99 / 101))\<rparr>])"
  by (simp add: gap_table_def parsed_def positive_price_def load_data_def stable_sort_def
      date_key_def log_returns_def shift1_def with_returns_def dropna_def row_complete_def
      notna_def MarketRiskAnalyzer_def)

text \<open>
  On strictly positive prices every return but the first is the logarithm of a positive
  ratio, and the first is \<open>NaN\<close>.
\<close>

lemma log_returns_Fin:
  assumes pos: "\<forall>c \<in> set cs. 0 < c" and ne: "cs \<noteq> []"
  shows "log_returns (map Fin cs) = NaN # map Fin (spec_log_returns cs)"
proof (rule nth_equalityI)
  have pos_len: "0 < length cs" using ne by simp
  have "length (log_returns (map Fin cs)) = length cs"
    using pos_len by (simp add: log_returns_def shift1_def)
  moreover have "length (spec_log_returns cs) = length cs - 1"
    by (simp add: spec_log_returns_def)
  ultimately show "length (log_returns (map Fin cs)) = length (NaN # map Fin (spec_log_returns cs))"
    using pos_len by simp
  fix i assume "i < length (log_returns (map Fin cs))"
  then have i: "i < length cs"
    by (simp add: log_returns_def)
  show "log_returns (map Fin cs) ! i = (NaN # map Fin (spec_log_returns cs)) ! i"
  proof (cases i)
    case 0
    then show ?thesis using ne i
      by (simp add: log_returns_def shift1_def)
  next
    case (Suc k)
    have k: "k < length cs - 1" using i Suc by simp
    have pk: "0 < cs ! Suc k" "0 < cs ! k"
      using pos i Suc by (auto simp: all_set_conv_all_nth)
    then have ratio: "0 < cs ! Suc k / cs ! k" by simp
    have nz: "cs ! k \<noteq> 0" using pk by simp
    have prev: "butlast (map Fin cs) ! k = Fin (cs ! k)"
      using k by (simp add: nth_butlast)
    show ?thesis
      using ne i Suc k ratio nz prev
      by (simp add: log_returns_def shift1_def spec_log_returns_def)
  qed
qed

lemma positive_price_Fin: "positive_price x \<Longrightarrow> x = Fin (fin_value x) \<and> 0 < fin_value x"
  by (cases x) (simp_all add: positive_price_def)

lemma closes_Fin:
  assumes "\<forall>r \<in> set rows. positive_price (Close r)"
  shows "map Close rows = map Fin (map (\<lambda>r. fin_value (Close r)) rows)"
  using assms by (induction rows) (auto dest: positive_price_Fin)

lemma length_spec_log_returns: "length (spec_log_returns cs) = length cs - 1"
  by (simp add: spec_log_returns_def)

lemma map_Returns_with_returns:
  "length rs = length vs \<Longrightarrow> map Returns (map2 with_returns rs vs) = vs"
  by (induction rs vs rule: list_induct2) (simp_all add: with_returns_def)

lemma map_raw_of_with_returns:
  "length rs = length vs \<Longrightarrow> map raw_of (map2 with_returns rs vs) = rs"
  by (induction rs vs rule: list_induct2) (simp_all add: with_returns_def raw_of_def)

lemma dropna_complete:
  assumes "length rs = length vs"
    and "\<forall>r \<in> set rs. parsed (Date r) \<and> positive_price (Close r) \<and> \<not> Other_na r"
    and "\<forall>v \<in> set vs. notna v"
  shows "dropna (map2 with_returns rs vs) = map2 with_returns rs vs"
  using assms
proof (induction rs vs rule: list_induct2)
  case Nil
  then show ?case by (simp add: dropna_def)
next
  case (Cons r rs v vs)
  then have "row_complete (with_returns r v)"
    by (cases "Date r"; cases "Close r")
       (simp_all add: row_complete_def with_returns_def parsed_def positive_price_def notna_def)
  with Cons show ?case by (simp add: dropna_def)
qed

lemma load_data_clean:
  assumes srt: "sorts_by_date srt"
    and ok: "\<forall>r \<in> set tbl. parsed (Date r) \<and> positive_price (Close r) \<and> \<not> Other_na r"
  shows "data (load_data srt (Some tbl) st) =
           Some (Loaded (map2 with_returns (tl (srt tbl))
             (map Fin (spec_log_returns (map (\<lambda>r. fin_value (Close r)) (srt tbl))))))"
proof -
  define S where "S = srt tbl"
  define cs where "cs = map (\<lambda>r. fin_value (Close r)) S"
  have m: "mset S = mset tbl" using srt by (simp add: sorts_by_date_def S_def)
  then have set_eq: "set S = set tbl" by (rule mset_eq_setD)
  have okS: "\<forall>r \<in> set S. parsed (Date r) \<and> positive_price (Close r) \<and> \<not> Other_na r"
    using ok set_eq by simp
  have no_bad: "\<not> (\<exists>r \<in> set tbl. Date r = Unparseable)"
    using ok by (auto simp: parsed_def)
  have closes: "map Close S = map Fin cs"
    unfolding cs_def using okS by (intro closes_Fin) simp
  have pos: "\<forall>c \<in> set cs. 0 < c"
    unfolding cs_def using okS by (auto dest: positive_price_Fin)
  have start: "data (load_data srt (Some tbl) st) =
      Some (Loaded (dropna (map2 with_returns S (log_returns (map Fin cs)))))"
    using no_bad by (simp add: load_data_def Let_def S_def [symmetric] closes)
  show ?thesis
  proof (cases S)
    case Nil
    then show ?thesis
      unfolding start S_def [symmetric]
      by (simp add: cs_def log_returns_def dropna_def spec_log_returns_def)
  next
    case (Cons r0 S')
    then have ne: "cs \<noteq> []" by (simp add: cs_def)
    define L where "L = map Fin (spec_log_returns cs)"
    have lenL: "length S' = length L"
      using Cons by (simp add: L_def length_spec_log_returns cs_def)
    have rets: "log_returns (map Fin cs) = NaN # L"
      unfolding L_def by (rule log_returns_Fin [OF pos ne])
    have "dropna (map2 with_returns S (log_returns (map Fin cs))) =
          dropna (map2 with_returns S' L)"
      unfolding rets Cons
      by (simp add: dropna_def row_complete_def with_returns_def notna_def)
    also have "\<dots> = map2 with_returns S' L"
      using lenL okS Cons by (intro dropna_complete) (auto simp: L_def notna_def)
    finally show ?thesis
      unfolding start S_def [symmetric] cs_def [symmetric] L_def [symmetric]
      by (simp add: Cons)
  qed
qed

text \<open>
  Claim C3, amended: for a table of \<open>N + 1\<close> rows with parseable dates, strictly positive
  prices and no empty cell in any other column, \<open>load_data\<close> leaves exactly \<open>N\<close> rows, the
  date-sorted rows without the first, and their returns are \<open>ln (close[t] / close[t-1])\<close>
  over the date-sorted prices.
\<close>

theorem load_data_log_returns:
  assumes "sorts_by_date srt"
    and "list_all (\<lambda>r. parsed (Date r) \<and> positive_price (Close r) \<and> \<not> Other_na r) tbl"
  shows "\<exists>rows. data (load_data srt (Some tbl) st) = Some (Loaded rows) \<and>
           map Returns rows =
             map Fin (spec_log_returns (map (\<lambda>r. fin_value (Close r)) (srt tbl))) \<and>
           map raw_of rows = tl (srt tbl) \<and>
           length rows = length tbl - 1"
proof -
  let ?L = "map Fin (spec_log_returns (map (\<lambda>r. fin_value (Close r)) (srt tbl)))"
  have ok: "\<forall>r \<in> set tbl. parsed (Date r) \<and> positive_price (Close r) \<and> \<not> Other_na r"
    using assms(2) by (simp add: list_all_iff)
  have "mset (srt tbl) = mset tbl"
    using assms(1) by (simp add: sorts_by_date_def)
  then have len_srt: "length (srt tbl) = length tbl"
    by (metis size_mset)
  have len: "length (tl (srt tbl)) = length ?L"
    by (simp add: length_spec_log_returns)
  have "length (map2 with_returns (tl (srt tbl)) ?L) = length tbl - 1"
    using len len_srt by simp
  then show ?thesis
    using load_data_clean [OF assms(1) ok, of st]
      map_Returns_with_returns [OF len] map_raw_of_with_returns [OF len]
    by blast
qed

theorem load_data_log_returns_witness:
  "data (load_data stable_sort (Some sample_table)
           (MarketRiskAnalyzer ''market_data.xlsx'' (95 / 100))) =
     Some (Loaded
       [\<lparr>Date = Stamp 2, Close = Fin 101, Other_na = False, Returns = Fin (ln (101 / 100))\<rparr>,
        \<lparr>Date = Stamp 3, Close = Fin 99, Other_na = False, Returns = Fin (ln (99 / 101))\<rparr>])"
  using load_data_log_returns [OF stable_sort_sorts_by_date, where tbl = sample_table
      and st = "MarketRiskAnalyzer ''market_data.xlsx'' (95 / 100)"]
  by (simp add: sample_table_def parsed_def positive_price_def load_data_def stable_sort_def
      date_key_def log_returns_def shift1_def with_returns_def dropna_def row_complete_def
      notna_def MarketRiskAnalyzer_def spec_log_returns_def raw_of_def)

section \<open>Constant prices\<close>

text \<open>
  Claim C7, as the specification has it: for every constant positive price series and every
  confidence level in \<open>(0, 1)\<close> the returns are all zero and both estimates are 0. A series
  of one row is constant, its return series is empty, and both estimates are \<open>NaN\<close>:
\<close>

theorem constant_single_row_counterexample:
  "returned (calculate_historical_var (load_data stable_sort (Some single_row_table)
      (MarketRiskAnalyzer ''market_data.xlsx'' (95 / 100)))) = Inr (Some NaN) \<and>
   returned (calculate_parametric_var sample_ndtri (load_data stable_sort (Some single_row_table)
      (MarketRiskAnalyzer ''market_data.xlsx'' (95 / 100)))) = Inr (Some NaN)"
  by (simp add: single_row_table_def load_data_def stable_sort_def log_returns_def shift1_def
      with_returns_def dropna_def row_complete_def notna_def MarketRiskAnalyzer_def
      calculate_historical_var_def calculate_parametric_var_def returns_column_def
      pd_quantile_def np_mean_def nanmean_def returned_def)

lemma Returns_with_returns_in:
  "r \<in> set (map2 with_returns rs vs) \<Longrightarrow> Returns r \<in> set vs"
  by (auto simp: with_returns_def dest: set_zip_rightD)

lemma spec_log_returns_constant:
  assumes "\<forall>c \<in> set cs. c = p" and "p \<noteq> 0"
  shows "\<forall>x \<in> set (spec_log_returns cs). x = 0"
proof
  fix x assume "x \<in> set (spec_log_returns cs)"
  then obtain t where t: "1 \<le> t" "t < length cs" and x: "x = ln (cs ! t / cs ! (t - 1))"
    by (auto simp: spec_log_returns_def)
  have "cs ! t = p" and "cs ! (t - 1) = p"
    using assms(1) t by (auto simp: all_set_conv_all_nth)
  then show "x = 0" using x assms(2) by simp
qed

lemma zeros_as_Fin:
  "\<forall>r \<in> set rows. Returns r = Fin 0 \<Longrightarrow>
   map Returns rows = map Fin (replicate (length rows) 0)"
  by (induction rows) simp_all

lemma spec_quantile_zeros:
  assumes "0 < k" and "0 \<le> q" and "q \<le> 1"
  shows "spec_quantile (replicate k 0) q = 0"
proof -
  obtain m where k: "k = Suc m" using assms(1) by (cases k) auto
  define j where "j = nat \<lfloor>real m * q\<rfloor>"
  have a: "0 \<le> real m * q" using assms(2) by simp
  have b: "real m * q \<le> real m" using assms(3) by (simp add: mult_left_le)
  have srt: "sorted (replicate k (0::real))" by (simp add: sorted_replicate)
  have len: "length (replicate k (0::real)) = Suc m" by (simp add: k)
  have "j \<le> m"
    unfolding j_def by (rule interp_bounds(3) [OF srt len a b])
  then have lt: "j < k" "min (j + 1) m < k" by (simp_all add: k)
  have km: "k - 1 = m" by (simp add: k)
  have sort_id: "sort (replicate k (0::real)) = replicate k 0"
    using srt by (rule sorted_sort_id)
  have "spec_quantile (replicate k 0) q =
        replicate k 0 ! j + (real m * q - real j) *
          (replicate k 0 ! min (j + 1) m - replicate k 0 ! j)"
    by (simp only: spec_quantile_def Let_def sort_id length_replicate km j_def)
  also have "\<dots> = 0"
    by (simp only: nth_replicate [OF lt(1)] nth_replicate [OF lt(2)]) simp
  finally show ?thesis .
qed

lemma spec_mean_zeros: "spec_mean (replicate k 0) = 0"
  by (simp add: spec_mean_def sum_list_replicate)

lemma spec_pstd_zeros: "spec_pstd (replicate k 0) = 0"
  by (simp add: spec_pstd_def spec_mean_zeros sum_list_replicate)

lemma var_of_zero_returns:
  assumes d: "data st = Some (Loaded rows)" and ne: "rows \<noteq> []"
    and z: "\<forall>r \<in> set rows. Returns r = Fin 0"
    and c: "0 < confidence_level st" "confidence_level st < 1"
  shows "returned (calculate_historical_var st) = Inr (Some (Fin 0))"
    and "returned (calculate_parametric_var ndtri st) = Inr (Some (Fin 0))"
proof -
  let ?xs = "replicate (length rows) (0::real)"
  have rets: "map Returns rows = map Fin ?xs" by (rule zeros_as_Fin [OF z])
  have xs: "?xs \<noteq> []" using ne by simp
  have k: "0 < length rows" using ne by simp
  have "pd_quantile (map Fin ?xs) (1 - confidence_level st) =
        Inr (Fin (spec_quantile ?xs (1 - confidence_level st)))"
    using c by (intro pd_quantile_Fin [OF xs]) simp_all
  also have "spec_quantile ?xs (1 - confidence_level st) = 0"
    using c by (intro spec_quantile_zeros [OF k]) simp_all
  finally have q: "pd_quantile (map Returns rows) (1 - confidence_level st) = Inr (Fin 0)"
    unfolding rets .
  have mean: "np_mean (map Returns rows) = Fin 0"
    unfolding rets np_mean_def nanmean_Fin [OF xs] spec_mean_zeros ..
  have std: "np_std (map Returns rows) = Fin 0"
    unfolding rets np_std_Fin [OF xs] spec_pstd_zeros ..
  show "returned (calculate_historical_var st) = Inr (Some (Fin 0))"
    by (simp add: calculate_historical_var_def d returns_column_def q returned_def)
  show "returned (calculate_parametric_var ndtri st) = Inr (Some (Fin 0))"
    using c
    by (simp add: calculate_parametric_var_def d returns_column_def mean std norm_ppf_def
        returned_def Let_def)
qed

lemma load_data_constant:
  assumes srt: "sorts_by_date srt"
    and ok: "\<forall>r \<in> set tbl. parsed (Date r) \<and> Close r = Fin p"
    and p: "0 < p"
  shows "\<exists>rows. data (load_data srt (Some tbl) st) = Some (Loaded rows) \<and>
           (\<forall>r \<in> set rows. Returns r = Fin 0)"
proof -
  define S where "S = srt tbl"
  define cs where "cs = map (\<lambda>r. fin_value (Close r)) S"
  have "mset S = mset tbl" using srt by (simp add: sorts_by_date_def S_def)
  then have set_eq: "set S = set tbl" by (rule mset_eq_setD)
  have no_bad: "\<not> (\<exists>r \<in> set tbl. Date r = Unparseable)"
    using ok by (auto simp: parsed_def)
  have okS: "\<forall>r \<in> set S. Close r = Fin p" using ok set_eq by simp
  then have closes: "map Close S = map Fin cs"
    unfolding cs_def by (induction S) simp_all
  have const: "\<forall>c \<in> set cs. c = p" using okS by (auto simp: cs_def)
  have start: "data (load_data srt (Some tbl) st) =
      Some (Loaded (dropna (map2 with_returns S (log_returns (map Fin cs)))))"
    using no_bad by (simp add: load_data_def Let_def S_def [symmetric] closes)
  have "v = NaN \<or> v = Fin 0" if "v \<in> set (log_returns (map Fin cs))" for v
  proof (cases "cs = []")
    case True
    then show ?thesis using that by (simp add: log_returns_def)
  next
    case False
    have "\<forall>c \<in> set cs. 0 < c" using const p by auto
    from log_returns_Fin [OF this False] that spec_log_returns_constant [OF const]
    show ?thesis using p by auto
  qed
  then have "Returns r = Fin 0"
    if "r \<in> set (dropna (map2 with_returns S (log_returns (map Fin cs))))" for r
    using that Returns_with_returns_in [of r S "log_returns (map Fin cs)"]
    by (auto simp: dropna_def row_complete_def notna_def)
  then show ?thesis unfolding start by blast
qed

text \<open>
  Claim C7, amended: for every constant positive price series with parseable dates and every
  confidence level in \<open>(0, 1)\<close>, every return that \<open>load_data\<close> keeps is zero, and when at
  least one is kept both Historical VaR and Parametric VaR are 0.
\<close>

theorem constant_prices_give_zero_var:
  assumes "sorts_by_date srt"
    and "list_all (\<lambda>r. parsed (Date r) \<and> Close r = Fin p) tbl" and "0 < p"
    and "0 < confidence_level st" and "confidence_level st < 1"
  shows "\<exists>rows. data (load_data srt (Some tbl) st) = Some (Loaded rows) \<and>
           list_all (\<lambda>r. Returns r = Fin 0) rows \<and>
           (rows \<noteq> [] \<longrightarrow>
              returned (calculate_historical_var (load_data srt (Some tbl) st)) =
                Inr (Some (Fin 0)) \<and>
              returned (calculate_parametric_var ndtri (load_data srt (Some tbl) st)) =
                Inr (Some (Fin 0)))"
proof -
  have ok: "\<forall>r \<in> set tbl. parsed (Date r) \<and> Close r = Fin p"
    using assms(2) by (simp add: list_all_iff)
  obtain rows where d: "data (load_data srt (Some tbl) st) = Some (Loaded rows)"
    and z: "\<forall>r \<in> set rows. Returns r = Fin 0"
    using load_data_constant [OF assms(1) ok assms(3)] by blast
  have c: "0 < confidence_level (load_data srt (Some tbl) st)"
    "confidence_level (load_data srt (Some tbl) st) < 1"
    using assms(4,5) by (simp_all add: load_data_def Let_def)
  show ?thesis
    using d z var_of_zero_returns [OF d _ z c] by (auto simp: list_all_iff)
qed

theorem constant_prices_give_zero_var_witness:
  "data (load_data stable_sort (Some flat_table)
      (MarketRiskAnalyzer ''market_data.xlsx'' (95 / 100))) =
     Some (Loaded
       [\<lparr>Date = Stamp 2, Close = Fin 100, Other_na = False, Returns = Fin 0\<rparr>,
        \<lparr>Date = Stamp 3, Close = Fin 100, Other_na = False, Returns = Fin 0\<rparr>]) \<and>
   returned (calculate_historical_var (load_data stable_sort (Some flat_table)
      (MarketRiskAnalyzer ''market_data.xlsx'' (95 / 100)))) = Inr (Some (Fin 0)) \<and>
   returned (calculate_parametric_var sample_ndtri (load_data stable_sort (Some flat_table)
      (MarketRiskAnalyzer ''market_data.xlsx'' (95 / 100)))) = Inr (Some (Fin 0))"
proof -
  have d: "data (load_data stable_sort (Some flat_table)
      (MarketRiskAnalyzer ''market_data.xlsx'' (95 / 100))) =
     Some (Loaded
       [\<lparr>Date = Stamp 2, Close = Fin 100, Other_na = False, Returns = Fin 0\<rparr>,
        \<lparr>Date = Stamp 3, Close = Fin 100, Other_na = False, Returns = Fin 0\<rparr>])"
    by (simp add: flat_table_def load_data_def stable_sort_def date_key_def log_returns_def
        shift1_def with_returns_def dropna_def row_complete_def notna_def
        MarketRiskAnalyzer_def)
  have "list_all (\<lambda>r. parsed (Date r) \<and> Close r = Fin 100) flat_table"
    by (simp add: flat_table_def parsed_def)
  moreover have "0 < confidence_level (MarketRiskAnalyzer ''market_data.xlsx'' (95 / 100))"
    and "confidence_level (MarketRiskAnalyzer ''market_data.xlsx'' (95 / 100)) < 1"
    by (simp_all add: MarketRiskAnalyzer_def)
  ultimately show ?thesis
    using constant_prices_give_zero_var [OF stable_sort_sorts_by_date,
      where st = "MarketRiskAnalyzer ''market_data.xlsx'' (95 / 100)" and ndtri = sample_ndtri
        and tbl = flat_table and p = 100] d
    by auto
qed

section \<open>Order of equal dates\<close>

subsection \<open>The partition stays inside its segment\<close>

text \<open>
  The median of three leaves a row of key at most the pivot's at the first place of the
  segment, and the pivot is parked at the last place but one: the upward scan stops at the
  pivot at the latest, the downward scan at the first place, and so after every exchange.
  The place where the scans meet is therefore inside the segment, and the tests on the
  index in \<open>scan_up\<close>, \<open>scan_down\<close> and \<open>aquicksort\<close> never decide.
\<close>

lemma nth_swap:
  "i < length a \<Longrightarrow> j < length a \<Longrightarrow> k < length a \<Longrightarrow>
   swap a i j ! k = (if k = j then a ! i else if k = i then a ! j else a ! k)"
  by (simp add: swap_def nth_list_update)

lemma scan_up_ge: "i \<le> scan_up key a vp i"
  by (induction key a vp i rule: scan_up.induct) (subst scan_up.simps, auto)

lemma scan_down_le: "scan_down key a vp j \<le> j"
  by (induction key a vp j rule: scan_down.induct) (subst scan_down.simps, auto)

lemma scan_up_stop:
  "i \<le> s \<Longrightarrow> s < length a \<Longrightarrow> \<not> key (a ! s) < vp \<Longrightarrow> scan_up key a vp i \<le> s"
proof (induction key a vp i rule: scan_up.induct)
  case (1 key a vp i)
  show ?case
  proof (cases "i < length a \<and> key (a ! i) < vp")
    case True
    then have "i \<noteq> s" using 1(4) by auto
    then have "Suc i \<le> s" using 1(2) by simp
    from 1(1) [OF True this 1(3,4)] show ?thesis
      by (subst scan_up.simps) (simp add: True)
  next
    case False
    then show ?thesis
      using 1(2) by (subst scan_up.simps) auto
  qed
qed

lemma scan_up_found:
  "scan_up key a vp i < length a \<Longrightarrow> \<not> key (a ! scan_up key a vp i) < vp"
proof (induction key a vp i rule: scan_up.induct)
  case (1 key a vp i)
  show ?case
  proof (cases "i < length a \<and> key (a ! i) < vp")
    case True
    then have eq: "scan_up key a vp i = scan_up key a vp (Suc i)"
      by (subst scan_up.simps) simp
    from 1(1) [OF True] 1(2) show ?thesis
      unfolding eq by simp
  next
    case False
    then have eq: "scan_up key a vp i = i"
      by (subst scan_up.simps) auto
    from False 1(2) show ?thesis
      unfolding eq by simp
  qed
qed

lemma scan_down_stop:
  "s \<le> j \<Longrightarrow> \<not> vp < key (a ! s) \<Longrightarrow> s \<le> scan_down key a vp j"
proof (induction key a vp j rule: scan_down.induct)
  case (1 key a vp j)
  show ?case
  proof (cases "0 < j \<and> vp < key (a ! j)")
    case True
    then have "j \<noteq> s" using 1(3) by auto
    then have "s \<le> j - 1" using 1(2) by simp
    from 1(1) [OF True this 1(3)] show ?thesis
      by (subst scan_down.simps) (simp add: True)
  next
    case False
    then show ?thesis
      using 1(2) by (subst scan_down.simps) auto
  qed
qed

lemma scan_down_found:
  "0 < scan_down key a vp j \<Longrightarrow> \<not> vp < key (a ! scan_down key a vp j)"
proof (induction key a vp j rule: scan_down.induct)
  case (1 key a vp j)
  show ?case
  proof (cases "0 < j \<and> vp < key (a ! j)")
    case True
    then have eq: "scan_down key a vp j = scan_down key a vp (j - 1)"
      by (subst scan_down.simps) simp
    from 1(1) [OF True] 1(2) show ?thesis
      unfolding eq by simp
  next
    case False
    then have eq: "scan_down key a vp j = j"
      by (subst scan_down.simps) auto
    from False 1(2) show ?thesis
      unfolding eq by simp
  qed
qed

lemma partition_loop_in_range:
  "i < j \<Longrightarrow> j < length a \<Longrightarrow> \<not> key (a ! j) < vp \<Longrightarrow> \<not> vp < key (a ! i) \<Longrightarrow>
   snd (partition_loop key vp a i j) \<le> j"
proof (induction key vp a i j rule: partition_loop.induct)
  case (1 key vp a i j)
  define i' where "i' = scan_up key a vp (Suc i)"
  define j' where "j' = scan_down key a vp (j - 1)"
  have i'j: "i' \<le> j"
    unfolding i'_def using 1(2,3,4) by (intro scan_up_stop) simp_all
  have i'i: "Suc i \<le> i'"
    unfolding i'_def by (rule scan_up_ge)
  have j'j: "j' \<le> j - 1"
    unfolding j'_def by (rule scan_down_le)
  have step: "partition_loop key vp a i j =
      (if i' \<ge> j' then (a, i') else partition_loop key vp (swap a i' j') i' j')"
    unfolding i'_def j'_def by (subst partition_loop.simps, simp only: Let_def)
  show ?case
  proof (cases "j' \<le> i'")
    case True
    then show ?thesis
      using i'j by (simp add: step)
  next
    case False
    then have lt: "i' < j'" by simp
    have len: "i' < length a" "j' < length a"
      using lt j'j 1(3) by simp_all
    have a: "\<not> key (a ! i') < vp"
      using len(1) unfolding i'_def by (rule scan_up_found)
    have b: "\<not> vp < key (a ! j')"
      using lt unfolding j'_def by (intro scan_down_found) simp
    have "snd (partition_loop key vp (swap a i' j') i' j') \<le> j'"
    proof (rule 1(1) [OF i'_def j'_def])
      show "\<not> j' \<le> i'" by (rule False)
      show "i' < j'" by (rule lt)
      show "j' < length (swap a i' j')" using len by (simp add: swap_def)
      show "\<not> key (swap a i' j' ! j') < vp" using len a by (simp add: nth_swap)
      show "\<not> vp < key (swap a i' j' ! i')" using len b lt by (simp add: nth_swap)
    qed
    then show ?thesis
      using False j'j by (simp add: step)
  qed
qed

lemma np_partition_in_range:
  assumes "3 \<le> length a"
  shows "snd (np_partition key a) < length a - 1"
proof -
  define pr where "pr = length a - 1"
  define pm where "pm = pr div 2"
  define a1 where "a1 = (if key (a ! pm) < key (a ! 0) then swap a pm 0 else a)"
  define a2 where "a2 = (if key (a1 ! pr) < key (a1 ! pm) then swap a1 pr pm else a1)"
  define a3 where "a3 = (if key (a2 ! pm) < key (a2 ! 0) then swap a2 pm 0 else a2)"
  define vp where "vp = key (a3 ! pm)"
  define a4 where "a4 = swap a3 pm (pr - 1)"
  have pr: "2 \<le> pr" "pr < length a"
    using assms by (simp_all add: pr_def)
  then have pm: "0 < pm" "pm < pr" "pm \<le> pr - 1"
    by (simp_all add: pm_def)
  have len: "length a1 = length a" "length a2 = length a" "length a3 = length a"
    "length a4 = length a"
    by (simp_all add: a1_def a2_def a3_def a4_def swap_def)
  have inside: "pm < length a" "0 < length a" "pr - 1 < length a"
    using pr pm by arith+
  have low: "\<not> key (a3 ! pm) < key (a3 ! 0)"
    using inside pm by (simp add: a3_def nth_swap len)
  have "snd (partition_loop key vp a4 0 (pr - 1)) \<le> pr - 1"
  proof (rule partition_loop_in_range)
    show "0 < pr - 1" using pr by simp
    show "pr - 1 < length a4" using pr by (simp add: len)
    show "\<not> key (a4 ! (pr - 1)) < vp"
      using inside pm by (simp add: a4_def vp_def nth_swap len)
    show "\<not> vp < key (a4 ! 0)"
      using inside pr pm low by (simp add: a4_def vp_def nth_swap len)
  qed
  moreover have "snd (np_partition key a) = snd (partition_loop key vp a4 0 (pr - 1))"
    unfolding pr_def pm_def a1_def a2_def a3_def vp_def a4_def
    by (simp only: np_partition_def Let_def split_beta snd_conv)
  ultimately show ?thesis
    using pr by (simp add: pr_def)
qed

text \<open>
  So a segment of more than 17 rows is always split at a place inside it, as in the C code.
\<close>

lemma aquicksort_partitions:
  assumes "16 < length a - 1" and "\<not> (popped \<and> cdepth < 0)"
  shows "aquicksort key popped cdepth a =
           (let b = fst (np_partition key a);
                i = snd (np_partition key a)
            in if i < length a - 1 - i
               then aquicksort key False (cdepth - 1) (take i b) @ b ! i #
                    aquicksort key True (cdepth - 1) (drop (Suc i) b)
               else aquicksort key True (cdepth - 1) (take i b) @ b ! i #
                    aquicksort key False (cdepth - 1) (drop (Suc i) b))"
proof -
  have "3 \<le> length a"
    using assms(1) by simp
  then have "snd (np_partition key a) < length a - 1"
    by (rule np_partition_in_range)
  then have "snd (np_partition key a) < length a"
    by simp
  then show ?thesis
    using assms by (subst aquicksort.simps) (simp only: Let_def if_True if_False)
qed

subsection \<open>The insertion sort is stable\<close>








subsection \<open>Tables of at most 17 dated rows\<close>






subsection \<open>The sample tables\<close>






end
